theory Spec2Isabelle
  imports Main "HOL-Library.Word"
begin

section \<open>The order book of src/main.cpp\<close>

text \<open>
  A C++ \<open>int\<close> is a 32-bit two's complement value and \<open>unsigned int\<close> a 32-bit value:
  both are \<open>32 word\<close>. Signed comparisons are \<open><s\<close> and \<open>\<le>s\<close>; \<open>sint\<close> reads the
  signed value. \<open>fetch_add\<close> and \<open>fetch_sub\<close> on atomic ints wrap around, as
  \<open>+\<close> and \<open>-\<close> on words do.
\<close>

type_synonym cint = "32 word"
type_synonym cuint = "32 word"

definition MAX_TICKERS :: cint where
  "MAX_TICKERS = 1024"

definition MAX_ORDERS_PER_SIDE :: cint where
  "MAX_ORDERS_PER_SIDE = 1024"

text \<open>\<open>struct Order\<close>; the constructor gives \<open>Order0\<close>.\<close>

record Order =
  active :: bool
  isBuy :: bool
  quantity :: cint
  price :: cint

definition Order0 :: Order where
  "Order0 = \<lparr>active = False, isBuy = False, quantity = 0, price = 0\<rparr>"

text \<open>
  \<open>struct OrderBook\<close>. The two arrays have \<open>MAX_ORDERS_PER_SIDE\<close> slots each: an array
  is the function from the slot number to its content, and every access of the code is
  guarded in the model by the bounds check that C++ leaves out; an access outside
  \<open>0 .. MAX_ORDERS_PER_SIDE - 1\<close> is the error \<open>OutOfBounds\<close>.
\<close>

record OrderBook =
  buyOrders :: "nat \<Rightarrow> Order"
  buyCount :: cint
  sellOrders :: "nat \<Rightarrow> Order"
  sellCount :: cint

definition OrderBook0 :: OrderBook where
  "OrderBook0 = \<lparr>buyOrders = (\<lambda>_. Order0), buyCount = 0,
                  sellOrders = (\<lambda>_. Order0), sellCount = 0\<rparr>"

text \<open>The global array \<open>orderBooks[MAX_TICKERS]\<close>, indexed by \<open>hashTicker\<close>.\<close>

type_synonym books = "nat \<Rightarrow> OrderBook"

definition orderBooks0 :: books where
  "orderBooks0 = (\<lambda>_. OrderBook0)"

datatype error = OutOfBounds

subsection \<open>C strings\<close>

text \<open>
  A \<open>const char*\<close> argument is read up to its first NUL character. \<open>c_str\<close> is that
  prefix. The cast to unsigned int of a plain \<open>char\<close> sign-extends where \<open>char\<close> is
  signed (x86-64); it is the identity on ASCII.
\<close>

definition c_str :: "string \<Rightarrow> string" where
  "c_str s = takeWhile (\<lambda>c. c \<noteq> CHR 0x00) s"

definition char_to_uint :: "char \<Rightarrow> cuint" where
  "char_to_uint c =
     (if (of_char c :: nat) < 128 then of_nat (of_char c) else of_nat (of_char c) - 256)"

definition strcmp_is_0 :: "string \<Rightarrow> string \<Rightarrow> bool" where
  "strcmp_is_0 a b = (c_str a = c_str b)"

subsection \<open>hashTicker\<close>

fun hashTicker_loop :: "cuint \<Rightarrow> string \<Rightarrow> cuint" where
  "hashTicker_loop hash [] = hash"
| "hashTicker_loop hash (c # cs) =
     (if c = CHR 0x00 then hash
      else hashTicker_loop (hash * 31 + char_to_uint c) cs)"

text \<open>The result \<open>hash % MAX_TICKERS\<close> is computed unsigned; it is an array index.\<close>

definition hashTicker :: "string \<Rightarrow> nat" where
  "hashTicker ticker = unat (hashTicker_loop 0 ticker mod MAX_TICKERS)"

subsection \<open>addOrder\<close>

text \<open>
  \<open>fetch_add\<close> returns the old counter and stores the incremented one before the
  capacity check. A negative \<open>pos\<close> passes the check and indexes the array out of bounds.
\<close>

definition addOrder :: "string \<Rightarrow> string \<Rightarrow> cint \<Rightarrow> cint \<Rightarrow> books \<Rightarrow> error + books" where
  "addOrder orderType ticker q p st =
     (let idx = hashTicker ticker; ob = st idx in
      if strcmp_is_0 orderType ''Buy'' then
        (let pos = buyCount ob; ob1 = ob\<lparr>buyCount := pos + 1\<rparr> in
         if MAX_ORDERS_PER_SIDE \<le>s pos then Inr (st(idx := ob1))
         else if pos <s 0 then Inl OutOfBounds
         else Inr (st(idx := ob1\<lparr>buyOrders := (buyOrders ob1)(nat (sint pos) :=
                \<lparr>active = True, isBuy = True, quantity = q, price = p\<rparr>)\<rparr>)))
      else if strcmp_is_0 orderType ''Sell'' then
        (let pos = sellCount ob; ob1 = ob\<lparr>sellCount := pos + 1\<rparr> in
         if MAX_ORDERS_PER_SIDE \<le>s pos then Inr (st(idx := ob1))
         else if pos <s 0 then Inl OutOfBounds
         else Inr (st(idx := ob1\<lparr>sellOrders := (sellOrders ob1)(nat (sint pos) :=
                \<lparr>active = True, isBuy = False, quantity = q, price = p\<rparr>)\<rparr>)))
      else Inr st)"

subsection \<open>matchOrder\<close>

text \<open>
  The two scan loops. The loop variable \<open>i\<close> runs from 0 and the read of slot \<open>i\<close> is
  out of bounds from \<open>MAX_ORDERS_PER_SIDE\<close> on, so \<open>i\<close> never overflows and is a \<open>nat\<close>;
  the counter is read as a signed value. The accumulator is the pair of the best price
  and the best index (an \<open>int\<close>, \<open>-1\<close> for none).
\<close>

function scanBuy :: "(nat \<Rightarrow> Order) \<Rightarrow> cint \<Rightarrow> nat \<Rightarrow> cint \<times> int \<Rightarrow> error + (cint \<times> int)" where
  "scanBuy orders currentBuyCount i (bestBuyPrice, bestBuyIndex) =
     (if int i < sint currentBuyCount then
        (if unat MAX_ORDERS_PER_SIDE \<le> i then Inl OutOfBounds
         else if active (orders i) \<and> 0 <s quantity (orders i)
                 \<and> bestBuyPrice <s price (orders i)
              then scanBuy orders currentBuyCount (Suc i) (price (orders i), int i)
              else scanBuy orders currentBuyCount (Suc i) (bestBuyPrice, bestBuyIndex))
      else Inr (bestBuyPrice, bestBuyIndex))"
  by pat_completeness auto
termination
  by (relation "measure (\<lambda>(orders, c, i, b). unat MAX_ORDERS_PER_SIDE - i)") auto

function scanSell :: "(nat \<Rightarrow> Order) \<Rightarrow> cint \<Rightarrow> nat \<Rightarrow> cint \<times> int \<Rightarrow> error + (cint \<times> int)" where
  "scanSell orders currentSellCount i (bestSellPrice, bestSellIndex) =
     (if int i < sint currentSellCount then
        (if unat MAX_ORDERS_PER_SIDE \<le> i then Inl OutOfBounds
         else if active (orders i) \<and> 0 <s quantity (orders i)
                 \<and> price (orders i) <s bestSellPrice
              then scanSell orders currentSellCount (Suc i) (price (orders i), int i)
              else scanSell orders currentSellCount (Suc i) (bestSellPrice, bestSellIndex))
      else Inr (bestSellPrice, bestSellIndex))"
  by pat_completeness auto
termination
  by (relation "measure (\<lambda>(orders, c, i, b). unat MAX_ORDERS_PER_SIDE - i)") auto

text \<open>\<open>std::min(a, b)\<close> on \<open>int\<close>: \<open>b\<close> if \<open>b < a\<close>, else \<open>a\<close>.\<close>

definition std_min :: "cint \<Rightarrow> cint \<Rightarrow> cint" where
  "std_min a b = (if b <s a then b else a)"

text \<open>
  The line written to \<open>cout\<close> for a match is the record \<open>Matched\<close>. The body of the
  \<open>if\<close> of \<open>matchOrder\<close> (the two loads, the minimum, the two \<open>fetch_sub\<close> and the two
  tests for zero) is \<open>matchOrder_fill\<close>; it returns the book and \<open>matchedQuantity\<close>.
\<close>

record Matched =
  matchedQuantity :: cint
  matchedTicker :: string
  buyPrice :: cint
  sellPrice :: cint

definition matchOrder_fill :: "OrderBook \<Rightarrow> nat \<Rightarrow> nat \<Rightarrow> OrderBook \<times> cint" where
  "matchOrder_fill ob b s =
     (let buyQty = quantity (buyOrders ob b);
          sellQty = quantity (sellOrders ob s);
          m = std_min buyQty sellQty;
          ob1 = ob\<lparr>buyOrders := (buyOrders ob)(b := (buyOrders ob b)\<lparr>quantity := buyQty - m\<rparr>)\<rparr>;
          ob2 = ob1\<lparr>sellOrders := (sellOrders ob1)(s := (sellOrders ob1 s)\<lparr>quantity := sellQty - m\<rparr>)\<rparr>;
          ob3 = (if quantity (buyOrders ob2 b) = 0
                 then ob2\<lparr>buyOrders := (buyOrders ob2)(b := (buyOrders ob2 b)\<lparr>active := False\<rparr>)\<rparr>
                 else ob2);
          ob4 = (if quantity (sellOrders ob3 s) = 0
                 then ob3\<lparr>sellOrders := (sellOrders ob3)(s := (sellOrders ob3 s)\<lparr>active := False\<rparr>)\<rparr>
                 else ob3)
      in (ob4, m))"

definition matchOrder :: "string \<Rightarrow> books \<Rightarrow> error + (books \<times> Matched option)" where
  "matchOrder ticker st =
     (let idx = hashTicker ticker; ob = st idx in
      case scanBuy (buyOrders ob) (buyCount ob) 0 (0, -1) of
        Inl e \<Rightarrow> Inl e
      | Inr (bestBuyPrice, bestBuyIndex) \<Rightarrow>
      (case scanSell (sellOrders ob) (sellCount ob) 0 (1000000, -1) of
        Inl e \<Rightarrow> Inl e
      | Inr (bestSellPrice, bestSellIndex) \<Rightarrow>
        if bestBuyIndex \<noteq> -1 \<and> bestSellIndex \<noteq> -1 \<and> bestSellPrice \<le>s bestBuyPrice then
          (let (ob', m) = matchOrder_fill ob (nat bestBuyIndex) (nat bestSellIndex) in
           Inr (st(idx := ob'),
                Some \<lparr>matchedQuantity = m, matchedTicker = c_str ticker,
                      buyPrice = bestBuyPrice, sellPrice = bestSellPrice\<rparr>))
        else Inr (st, None)))"

subsection \<open>Sequences of calls\<close>

text \<open>
  A caller (\<open>simulateOrders\<close>) issues \<open>addOrder\<close> and \<open>matchOrder\<close> calls one after the
  other. \<open>exec\<close> runs a list of calls from a state and collects the lines written to
  \<open>cout\<close>; it stops at the first out-of-bounds access.
\<close>

datatype call = AddOrder string string cint cint | MatchOrder string

fun exec_call :: "call \<Rightarrow> books \<Rightarrow> error + (books \<times> Matched list)" where
  "exec_call (AddOrder orderType ticker q p) st =
     (case addOrder orderType ticker q p st of
        Inl e \<Rightarrow> Inl e
      | Inr st' \<Rightarrow> Inr (st', []))"
| "exec_call (MatchOrder ticker) st =
     (case matchOrder ticker st of
        Inl e \<Rightarrow> Inl e
      | Inr (st', out) \<Rightarrow> Inr (st', (case out of None \<Rightarrow> [] | Some m \<Rightarrow> [m])))"

fun exec :: "call list \<Rightarrow> books \<Rightarrow> error + (books \<times> Matched list)" where
  "exec [] st = Inr (st, [])"
| "exec (c # cs) st =
     (case exec_call c st of
        Inl e \<Rightarrow> Inl e
      | Inr (st1, out1) \<Rightarrow>
          (case exec cs st1 of
             Inl e \<Rightarrow> Inl e
           | Inr (st2, out2) \<Rightarrow> Inr (st2, out1 @ out2)))"

subsection \<open>matchOrder by its atomic operations\<close>

text \<open>
  \<open>main\<close> runs \<open>simulateOrders\<close> in four threads, so calls of \<open>matchOrder\<close> interleave.
  A thread in \<open>matchOrder\<close> is at one of the program points of \<open>thread\<close>, which carries
  the local variables that are set there: \<open>bestBuyIndex\<close>, \<open>bestSellIndex\<close>,
  \<open>bestBuyPrice\<close>, \<open>bestSellPrice\<close>, and then \<open>buyQty\<close>, later \<open>matchedQuantity\<close>.
  \<open>matchOrder_step\<close> runs a thread up to its next program point: the two scans and the test
  of line 115; the load of line 117; the load of line 118 and the minimum; the
  \<open>fetch_sub\<close> of line 122; the one of line 123; the load and the store of lines 126-127;
  those of lines 129-130; the output of line 134. Every step is made of atomic operations
  of one thread that follow each other in the code, so a sequence of steps of several
  threads is one of the interleavings of their atomic operations.
\<close>

datatype thread =
    AtScan
  | AtLoadBuyQty int int cint cint
  | AtLoadSellQty int int cint cint cint
  | AtSubBuy int int cint cint cint
  | AtSubSell int int cint cint cint
  | AtTestBuy int int cint cint cint
  | AtTestSell int int cint cint cint
  | AtPrint int int cint cint cint
  | Returned

fun matchOrder_step :: "string \<Rightarrow> thread \<Rightarrow> books \<Rightarrow> error + (books \<times> thread \<times> Matched list)" where
  "matchOrder_step ticker AtScan st =
     (let ob = st (hashTicker ticker) in
      case scanBuy (buyOrders ob) (buyCount ob) 0 (0, -1) of
        Inl e \<Rightarrow> Inl e
      | Inr (bestBuyPrice, bestBuyIndex) \<Rightarrow>
      (case scanSell (sellOrders ob) (sellCount ob) 0 (1000000, -1) of
        Inl e \<Rightarrow> Inl e
      | Inr (bestSellPrice, bestSellIndex) \<Rightarrow>
        if bestBuyIndex \<noteq> -1 \<and> bestSellIndex \<noteq> -1 \<and> bestSellPrice \<le>s bestBuyPrice
        then Inr (st, AtLoadBuyQty bestBuyIndex bestSellIndex bestBuyPrice bestSellPrice, [])
        else Inr (st, Returned, [])))"
| "matchOrder_step ticker (AtLoadBuyQty bi si bp sp) st =
     (let ob = st (hashTicker ticker); buyQty = quantity (buyOrders ob (nat bi)) in
      Inr (st, AtLoadSellQty bi si bp sp buyQty, []))"
| "matchOrder_step ticker (AtLoadSellQty bi si bp sp buyQty) st =
     (let ob = st (hashTicker ticker); sellQty = quantity (sellOrders ob (nat si)) in
      Inr (st, AtSubBuy bi si bp sp (std_min buyQty sellQty), []))"
| "matchOrder_step ticker (AtSubBuy bi si bp sp m) st =
     (let ob = st (hashTicker ticker) in
      Inr (st(hashTicker ticker := ob\<lparr>buyOrders := (buyOrders ob)(nat bi :=
             (buyOrders ob (nat bi))\<lparr>quantity := quantity (buyOrders ob (nat bi)) - m\<rparr>)\<rparr>),
           AtSubSell bi si bp sp m, []))"
| "matchOrder_step ticker (AtSubSell bi si bp sp m) st =
     (let ob = st (hashTicker ticker) in
      Inr (st(hashTicker ticker := ob\<lparr>sellOrders := (sellOrders ob)(nat si :=
             (sellOrders ob (nat si))\<lparr>quantity := quantity (sellOrders ob (nat si)) - m\<rparr>)\<rparr>),
           AtTestBuy bi si bp sp m, []))"
| "matchOrder_step ticker (AtTestBuy bi si bp sp m) st =
     (let ob = st (hashTicker ticker) in
      Inr (if quantity (buyOrders ob (nat bi)) = 0
           then st(hashTicker ticker := ob\<lparr>buyOrders := (buyOrders ob)(nat bi :=
                  (buyOrders ob (nat bi))\<lparr>active := False\<rparr>)\<rparr>)
           else st,
           AtTestSell bi si bp sp m, []))"
| "matchOrder_step ticker (AtTestSell bi si bp sp m) st =
     (let ob = st (hashTicker ticker) in
      Inr (if quantity (sellOrders ob (nat si)) = 0
           then st(hashTicker ticker := ob\<lparr>sellOrders := (sellOrders ob)(nat si :=
                  (sellOrders ob (nat si))\<lparr>active := False\<rparr>)\<rparr>)
           else st,
           AtPrint bi si bp sp m, []))"
| "matchOrder_step ticker (AtPrint bi si bp sp m) st =
     Inr (st, Returned,
          [\<lparr>matchedQuantity = m, matchedTicker = c_str ticker, buyPrice = bp, sellPrice = sp\<rparr>])"
| "matchOrder_step ticker Returned st = Inr (st, Returned, [])"

text \<open>One thread alone, for \<open>n\<close> steps.\<close>

fun matchOrder_steps ::
  "nat \<Rightarrow> string \<Rightarrow> thread \<Rightarrow> books \<Rightarrow> error + (books \<times> thread \<times> Matched list)" where
  "matchOrder_steps 0 ticker th st = Inr (st, th, [])"
| "matchOrder_steps (Suc n) ticker th st =
     (case matchOrder_step ticker th st of
        Inl e \<Rightarrow> Inl e
      | Inr (st1, th1, out1) \<Rightarrow>
          (case matchOrder_steps n ticker th1 st1 of
             Inl e \<Rightarrow> Inl e
           | Inr (st2, th2, out2) \<Rightarrow> Inr (st2, th2, out1 @ out2)))"

text \<open>
  Two threads in \<open>matchOrder\<close> for the same ticker. The schedule says which thread takes
  the next step: \<open>True\<close> for the first, \<open>False\<close> for the second.
\<close>

fun two_threads ::
  "bool list \<Rightarrow> string \<Rightarrow> thread \<times> thread \<Rightarrow> books
     \<Rightarrow> error + (books \<times> (thread \<times> thread) \<times> Matched list)" where
  "two_threads [] ticker ths st = Inr (st, ths, [])"
| "two_threads (first # schedule) ticker (a, b) st =
     (case matchOrder_step ticker (if first then a else b) st of
        Inl e \<Rightarrow> Inl e
      | Inr (st1, th1, out1) \<Rightarrow>
          (case two_threads schedule ticker (if first then (th1, b) else (a, th1)) st1 of
             Inl e \<Rightarrow> Inl e
           | Inr (st2, ths2, out2) \<Rightarrow> Inr (st2, ths2, out1 @ out2)))"

section \<open>Notions of the specification\<close>

text \<open>
  An order is live when its flag is set and its remaining quantity is positive: this is
  the test of the two scan loops. The orders of a side are the slots below its counter,
  at most \<open>MAX_ORDERS_PER_SIDE\<close> of them; the slot number is the insertion sequence
  number, since \<open>addOrder\<close> writes slot \<open>buyCount\<close> (\<open>sellCount\<close>) and increments it.
\<close>

definition live :: "Order \<Rightarrow> bool" where
  "live ord = (active ord \<and> 0 <s quantity ord)"

definition occupied :: "cint \<Rightarrow> nat" where
  "occupied count = min (nat (sint count)) (unat MAX_ORDERS_PER_SIDE)"

text \<open>The two scans as \<open>matchOrder\<close> starts them.\<close>

definition bestBuy :: "OrderBook \<Rightarrow> error + (cint \<times> int)" where
  "bestBuy ob = scanBuy (buyOrders ob) (buyCount ob) 0 (0, -1)"

definition bestSell :: "OrderBook \<Rightarrow> error + (cint \<times> int)" where
  "bestSell ob = scanSell (sellOrders ob) (sellCount ob) 0 (1000000, -1)"

text \<open>
  What a scan over the first \<open>n\<close> slots has found: index \<open>-1\<close> and the initial price when
  no live order beats the initial price; otherwise the live order of the best price, and
  among the live orders of that price the one of the lowest slot.
\<close>

definition best_buy :: "(nat \<Rightarrow> Order) \<Rightarrow> nat \<Rightarrow> cint \<times> int \<Rightarrow> bool" where
  "best_buy orders n r =
     (case r of (bp, bi) \<Rightarrow>
        if bi = -1 then bp = 0 \<and> (\<forall>j<n. \<not> (live (orders j) \<and> 0 <s price (orders j)))
        else 0 \<le> bi \<and> nat bi < n \<and> live (orders (nat bi)) \<and> price (orders (nat bi)) = bp
             \<and> 0 <s bp
             \<and> (\<forall>j<n. live (orders j) \<longrightarrow>
                   price (orders j) \<le>s bp \<and> (price (orders j) = bp \<longrightarrow> nat bi \<le> j)))"

definition best_sell :: "(nat \<Rightarrow> Order) \<Rightarrow> nat \<Rightarrow> cint \<times> int \<Rightarrow> bool" where
  "best_sell orders n r =
     (case r of (sp, si) \<Rightarrow>
        if si = -1 then sp = 1000000
                        \<and> (\<forall>j<n. \<not> (live (orders j) \<and> price (orders j) <s 1000000))
        else 0 \<le> si \<and> nat si < n \<and> live (orders (nat si)) \<and> price (orders (nat si)) = sp
             \<and> sp <s 1000000
             \<and> (\<forall>j<n. live (orders j) \<longrightarrow>
                   sp \<le>s price (orders j) \<and> (price (orders j) = sp \<longrightarrow> nat si \<le> j)))"

text \<open>
  A cross: a live buy order whose price is at least the price of a live sell order.
  \<open>crossed_in_window\<close> restricts it to the prices the scans can select: a buy price
  above the initial \<open>bestBuyPrice = 0\<close> and a sell price below the initial
  \<open>bestSellPrice = 1000000\<close>.
\<close>

definition crossed :: "OrderBook \<Rightarrow> bool" where
  "crossed ob =
     (\<exists>i<occupied (buyCount ob). \<exists>j<occupied (sellCount ob).
        live (buyOrders ob i) \<and> live (sellOrders ob j)
        \<and> price (sellOrders ob j) \<le>s price (buyOrders ob i))"

definition crossed_in_window :: "OrderBook \<Rightarrow> bool" where
  "crossed_in_window ob =
     (\<exists>i<occupied (buyCount ob). \<exists>j<occupied (sellCount ob).
        live (buyOrders ob i) \<and> 0 <s price (buyOrders ob i)
        \<and> live (sellOrders ob j) \<and> price (sellOrders ob j) <s 1000000
        \<and> price (sellOrders ob j) \<le>s price (buyOrders ob i))"

text \<open>
  The quantities of the no-lost-quantity property, for the book of index \<open>k\<close>: the
  quantities handed to \<open>addOrder\<close> for a side, the remaining quantities of a side's
  orders, and the matched quantities written to \<open>cout\<close>.
\<close>

fun inserted :: "string \<Rightarrow> nat \<Rightarrow> call \<Rightarrow> cint list" where
  "inserted side k (AddOrder orderType ticker q p) =
     (if hashTicker ticker = k \<and> strcmp_is_0 orderType side then [q] else [])"
| "inserted side k (MatchOrder ticker) = []"

definition inserts :: "string \<Rightarrow> nat \<Rightarrow> call list \<Rightarrow> cint list" where
  "inserts side k cs = concat (map (inserted side k) cs)"

definition total_quantity :: "cint list \<Rightarrow> int" where
  "total_quantity qs = sum_list (map sint qs)"

definition remaining :: "(nat \<Rightarrow> Order) \<Rightarrow> cint \<Rightarrow> int" where
  "remaining orders count = (\<Sum>i<occupied count. sint (quantity (orders i)))"

definition matched :: "nat \<Rightarrow> Matched list \<Rightarrow> cint list" where
  "matched k ms = map matchedQuantity (filter (\<lambda>m. hashTicker (matchedTicker m) = k) ms)"

text \<open>The property as the specification words it, over both sides of the book.\<close>

definition no_lost_quantity :: "nat \<Rightarrow> call list \<Rightarrow> books \<Rightarrow> Matched list \<Rightarrow> bool" where
  "no_lost_quantity k cs st ms =
     (total_quantity (inserts ''Buy'' k cs) + total_quantity (inserts ''Sell'' k cs) =
        remaining (buyOrders (st k)) (buyCount (st k))
        + remaining (sellOrders (st k)) (sellCount (st k))
        + total_quantity (matched k ms))"

text \<open>
  The books after \<open>n\<close> calls \<open>addOrder("Buy", "AAPL", 1, 1)\<close> on the initial
  state, \<open>n\<close> up to \<open>MAX_ORDERS_PER_SIDE\<close>.
\<close>

definition filled :: "nat \<Rightarrow> books" where
  "filled n = orderBooks0(hashTicker ''AAPL'' :=
     \<lparr>buyOrders = (\<lambda>i. if i < n then \<lparr>active = True, isBuy = True, quantity = 1, price = 1\<rparr>
                        else Order0),
      buyCount = of_nat n, sellOrders = (\<lambda>_. Order0), sellCount = 0\<rparr>)"

text \<open>The books after one more such call: the order is dropped, the counter is 1025.\<close>

definition overfull :: books where
  "overfull = (filled 1024)(hashTicker ''AAPL'' :=
     (filled 1024 (hashTicker ''AAPL''))\<lparr>buyCount := 1025\<rparr>)"

text \<open>A buy and a sell of the same quantity and price, matched once.\<close>

definition full_fill_calls :: "call list" where
  "full_fill_calls =
     [AddOrder ''Buy'' ''AAPL'' 100 50, AddOrder ''Sell'' ''AAPL'' 100 50, MatchOrder ''AAPL'']"

definition full_fill_books :: books where
  "full_fill_books = orderBooks0(hashTicker ''AAPL'' :=
     \<lparr>buyOrders = (\<lambda>_. Order0)(0 :=
        \<lparr>active = False, isBuy = True, quantity = 0, price = 50\<rparr>),
      buyCount = 1,
      sellOrders = (\<lambda>_. Order0)(0 :=
        \<lparr>active = False, isBuy = False, quantity = 0, price = 50\<rparr>),
      sellCount = 1\<rparr>)"

definition full_fill_line :: Matched where
  "full_fill_line =
     \<lparr>matchedQuantity = 100, matchedTicker = ''AAPL'', buyPrice = 50, sellPrice = 50\<rparr>"

text \<open>
  Two instruments of the same hash index: a buy for \<open>''Aa''\<close>, a sell for \<open>''BB''\<close>, and
  a match for \<open>''Aa''\<close>.
\<close>

definition alias_calls :: "call list" where
  "alias_calls =
     [AddOrder ''Buy'' ''Aa'' 10 5, AddOrder ''Sell'' ''BB'' 10 5, MatchOrder ''Aa'']"

definition alias_books :: books where
  "alias_books = orderBooks0(hashTicker ''Aa'' :=
     \<lparr>buyOrders = (\<lambda>_. Order0)(0 :=
        \<lparr>active = False, isBuy = True, quantity = 0, price = 5\<rparr>),
      buyCount = 1,
      sellOrders = (\<lambda>_. Order0)(0 :=
        \<lparr>active = False, isBuy = False, quantity = 0, price = 5\<rparr>),
      sellCount = 1\<rparr>)"

definition alias_line :: Matched where
  "alias_line = \<lparr>matchedQuantity = 10, matchedTicker = ''Aa'', buyPrice = 5, sellPrice = 5\<rparr>"

text \<open>The books after \<open>addOrder("Sell", "AAPL", 10, -3)\<close> on the initial state.\<close>

definition negative_price_books :: books where
  "negative_price_books = orderBooks0(hashTicker ''AAPL'' :=
     OrderBook0\<lparr>sellOrders := (\<lambda>_. Order0)(0 :=
                   \<lparr>active = True, isBuy = False, quantity = 10, price = - 3\<rparr>),
                sellCount := 1\<rparr>)"

text \<open>A buy of 300 at 60 and a sell of 100 at 55, before and after one match.\<close>

definition partial_fill_start :: books where
  "partial_fill_start = orderBooks0(hashTicker ''AAPL'' :=
     \<lparr>buyOrders = (\<lambda>_. Order0)(0 :=
        \<lparr>active = True, isBuy = True, quantity = 300, price = 60\<rparr>),
      buyCount = 1,
      sellOrders = (\<lambda>_. Order0)(0 :=
        \<lparr>active = True, isBuy = False, quantity = 100, price = 55\<rparr>),
      sellCount = 1\<rparr>)"

definition partial_fill_books :: books where
  "partial_fill_books = orderBooks0(hashTicker ''AAPL'' :=
     \<lparr>buyOrders = (\<lambda>_. Order0)(0 :=
        \<lparr>active = True, isBuy = True, quantity = 200, price = 60\<rparr>),
      buyCount = 1,
      sellOrders = (\<lambda>_. Order0)(0 :=
        \<lparr>active = False, isBuy = False, quantity = 0, price = 55\<rparr>),
      sellCount = 1\<rparr>)"

definition partial_fill_line :: Matched where
  "partial_fill_line =
     \<lparr>matchedQuantity = 100, matchedTicker = ''AAPL'', buyPrice = 60, sellPrice = 55\<rparr>"

text \<open>
  Two buys of 10 at 50, inserted one after the other, and a sell of 5 at 50, before and
  after one match.
\<close>

definition tie_start :: books where
  "tie_start = orderBooks0(hashTicker ''AAPL'' :=
     \<lparr>buyOrders = (\<lambda>_. Order0)
        (0 := \<lparr>active = True, isBuy = True, quantity = 10, price = 50\<rparr>,
         1 := \<lparr>active = True, isBuy = True, quantity = 10, price = 50\<rparr>),
      buyCount = 2,
      sellOrders = (\<lambda>_. Order0)(0 :=
        \<lparr>active = True, isBuy = False, quantity = 5, price = 50\<rparr>),
      sellCount = 1\<rparr>)"

definition tie_books :: books where
  "tie_books = orderBooks0(hashTicker ''AAPL'' :=
     \<lparr>buyOrders = (\<lambda>_. Order0)
        (0 := \<lparr>active = True, isBuy = True, quantity = 5, price = 50\<rparr>,
         1 := \<lparr>active = True, isBuy = True, quantity = 10, price = 50\<rparr>),
      buyCount = 2,
      sellOrders = (\<lambda>_. Order0)(0 :=
        \<lparr>active = False, isBuy = False, quantity = 0, price = 50\<rparr>),
      sellCount = 1\<rparr>)"

definition tie_line :: Matched where
  "tie_line = \<lparr>matchedQuantity = 5, matchedTicker = ''AAPL'', buyPrice = 50, sellPrice = 50\<rparr>"

text \<open>A buy of 10 at price 0 and a sell of 10 at price 1000000.\<close>

definition unseen_books :: books where
  "unseen_books = orderBooks0(hashTicker ''AAPL'' :=
     \<lparr>buyOrders = (\<lambda>_. Order0)(0 :=
        \<lparr>active = True, isBuy = True, quantity = 10, price = 0\<rparr>),
      buyCount = 1,
      sellOrders = (\<lambda>_. Order0)(0 :=
        \<lparr>active = True, isBuy = False, quantity = 10, price = 1000000\<rparr>),
      sellCount = 1\<rparr>)"

text \<open>A buy of 10 at 40 and a sell of 10 at 50: no cross.\<close>

definition uncrossed_books :: books where
  "uncrossed_books = orderBooks0(hashTicker ''AAPL'' :=
     \<lparr>buyOrders = (\<lambda>_. Order0)(0 :=
        \<lparr>active = True, isBuy = True, quantity = 10, price = 40\<rparr>),
      buyCount = 1,
      sellOrders = (\<lambda>_. Order0)(0 :=
        \<lparr>active = True, isBuy = False, quantity = 10, price = 50\<rparr>),
      sellCount = 1\<rparr>)"

text \<open>A buy of 100 at 50 and two sells of 50 at 40, before and after one match.\<close>

definition two_sells_start :: books where
  "two_sells_start = orderBooks0(hashTicker ''AAPL'' :=
     \<lparr>buyOrders = (\<lambda>_. Order0)(0 :=
        \<lparr>active = True, isBuy = True, quantity = 100, price = 50\<rparr>),
      buyCount = 1,
      sellOrders = (\<lambda>_. Order0)
        (0 := \<lparr>active = True, isBuy = False, quantity = 50, price = 40\<rparr>,
         1 := \<lparr>active = True, isBuy = False, quantity = 50, price = 40\<rparr>),
      sellCount = 2\<rparr>)"

definition two_sells_books :: books where
  "two_sells_books = orderBooks0(hashTicker ''AAPL'' :=
     \<lparr>buyOrders = (\<lambda>_. Order0)(0 :=
        \<lparr>active = True, isBuy = True, quantity = 50, price = 50\<rparr>),
      buyCount = 1,
      sellOrders = (\<lambda>_. Order0)
        (0 := \<lparr>active = False, isBuy = False, quantity = 0, price = 40\<rparr>,
         1 := \<lparr>active = True, isBuy = False, quantity = 50, price = 40\<rparr>),
      sellCount = 2\<rparr>)"

definition two_sells_line :: Matched where
  "two_sells_line =
     \<lparr>matchedQuantity = 50, matchedTicker = ''AAPL'', buyPrice = 50, sellPrice = 40\<rparr>"

text \<open>
  A buy of 100 at 50 and a sell of 100 at 50 in the book, and the book after two threads
  have matched them in alternating steps.
\<close>

definition race_start :: books where
  "race_start = orderBooks0(hashTicker ''AAPL'' :=
     \<lparr>buyOrders = (\<lambda>_. Order0)(0 :=
        \<lparr>active = True, isBuy = True, quantity = 100, price = 50\<rparr>),
      buyCount = 1,
      sellOrders = (\<lambda>_. Order0)(0 :=
        \<lparr>active = True, isBuy = False, quantity = 100, price = 50\<rparr>),
      sellCount = 1\<rparr>)"

definition race_end :: books where
  "race_end = orderBooks0(hashTicker ''AAPL'' :=
     \<lparr>buyOrders = (\<lambda>_. Order0)(0 :=
        \<lparr>active = True, isBuy = True, quantity = - 100, price = 50\<rparr>),
      buyCount = 1,
      sellOrders = (\<lambda>_. Order0)(0 :=
        \<lparr>active = True, isBuy = False, quantity = - 100, price = 50\<rparr>),
      sellCount = 1\<rparr>)"

definition alternating :: "bool list" where
  "alternating = concat (replicate 8 [True, False])"

section \<open>Arithmetic of 32-bit integers\<close>

lemma sint_std_min: "sint (std_min a b) = min (sint a) (sint b)"
  by (simp add: std_min_def word_sless_alt min_def)

lemma sint_sub_small:
  fixes a m :: cint
  assumes "0 \<le> sint m" "sint m \<le> sint a"
  shows "sint (a - m) = sint a - sint m"
proof -
  have "sint a < 2 ^ 31" using sint_lt[of a] by simp
  with assms have "- (2 ^ 31) \<le> sint a - sint m" "sint a - sint m < 2 ^ 31"
    by simp_all
  then show ?thesis
    by (simp add: sint_word_ariths signed_take_bit_int_eq_self)
qed

lemma sint_sub_std_min:
  assumes "0 <s a" "0 <s b"
  shows "sint (a - std_min a b) = sint a - sint (std_min a b)"
    and "sint (b - std_min a b) = sint b - sint (std_min a b)"
  using assms by (simp_all add: sint_sub_small sint_std_min word_sless_alt)

lemma sint_succ:
  fixes c :: cint
  assumes "sint c < 2 ^ 31 - 1"
  shows "sint (c + 1) = sint c + 1"
proof -
  have "- (2 ^ 31) \<le> sint c" using sint_ge[of c] by simp
  with assms have "- (2 ^ 31) \<le> sint c + 1" "sint c + 1 < 2 ^ 31"
    by simp_all
  then show ?thesis
    by (simp add: sint_word_ariths signed_take_bit_int_eq_self)
qed

lemma sint_succ_max:
  fixes c :: cint
  assumes "\<not> sint c < 2 ^ 31 - 1"
  shows "sint (c + 1) < 0"
proof -
  have "sint c < 2 ^ 31" using sint_lt[of c] by simp
  with assms have "sint c = 2 ^ 31 - 1" by simp
  then have "sint c = sint (2147483647 :: cint)" by simp
  then have "c = 2147483647" by (rule signed_word_eqI)
  then show ?thesis by simp
qed

lemma sint_of_nat_small: "n \<le> 1025 \<Longrightarrow> sint (of_nat n :: cint) = int n"
proof -
  assume "n \<le> 1025"
  then have "- (2 ^ 31) \<le> int n" "int n < 2 ^ 31" by simp_all
  then show ?thesis
    by (simp add: signed_of_nat signed_take_bit_int_eq_self)
qed


section \<open>C strings and the hash\<close>

lemma hashTicker_loop_c_str: "hashTicker_loop h (c_str t) = hashTicker_loop h t"
  by (induction t arbitrary: h) (simp_all add: c_str_def)

lemma hashTicker_c_str: "hashTicker (c_str t) = hashTicker t"
  by (simp add: hashTicker_def hashTicker_loop_c_str)

lemma not_Buy_and_Sell: "strcmp_is_0 ty ''Buy'' \<Longrightarrow> \<not> strcmp_is_0 ty ''Sell''"
  by (simp add: strcmp_is_0_def c_str_def)

section \<open>The scan loops\<close>

declare scanBuy.simps [simp del] scanSell.simps [simp del]

lemma scanBuy_ok: "sint c \<le> 1024 \<Longrightarrow> \<exists>r. scanBuy orders c i acc = Inr r"
proof (induction orders c i acc rule: scanBuy.induct)
  case (1 orders c i bp bi)
  show ?case
  proof (cases "int i < sint c")
    case True
    with "1.prems" have "\<not> unat MAX_ORDERS_PER_SIDE \<le> i"
      by (simp add: MAX_ORDERS_PER_SIDE_def)
    with True "1.IH" "1.prems" show ?thesis
      by (subst scanBuy.simps) auto
  next
    case False
    then show ?thesis by (subst scanBuy.simps) simp
  qed
qed

lemma scanBuy_oob: "1024 < sint c \<Longrightarrow> i \<le> 1024 \<Longrightarrow> scanBuy orders c i acc = Inl OutOfBounds"
proof (induction orders c i acc rule: scanBuy.induct)
  case (1 orders c i bp bi)
  show ?case
  proof (cases "i = 1024")
    case True
    with "1.prems" show ?thesis
      by (subst scanBuy.simps) (simp add: MAX_ORDERS_PER_SIDE_def)
  next
    case False
    with "1.prems" have lt: "i < 1024" "int i < sint c" "\<not> unat MAX_ORDERS_PER_SIDE \<le> i"
      by (simp_all add: MAX_ORDERS_PER_SIDE_def)
    with "1.IH" "1.prems" show ?thesis
      by (subst scanBuy.simps) auto
  qed
qed

lemma scanBuy_best_step:
  "best_buy orders i acc \<Longrightarrow> i \<le> nat (sint c) \<Longrightarrow> scanBuy orders c i acc = Inr r \<Longrightarrow>
   best_buy orders (nat (sint c)) r"
proof (induction orders c i acc rule: scanBuy.induct)
  case (1 orders c i bp bi)
  show ?case
  proof (cases "int i < sint c")
    case False
    with "1.prems" have "i = nat (sint c)" "r = (bp, bi)"
      by (auto simp: scanBuy.simps[of orders c i bp bi])
    with "1.prems" show ?thesis by simp
  next
    case True
    from True "1.prems"(3) have inb: "\<not> unat MAX_ORDERS_PER_SIDE \<le> i"
      by (auto simp: scanBuy.simps[of orders c i bp bi] split: if_splits)
    from True have le: "Suc i \<le> nat (sint c)" by simp
    show ?thesis
    proof (cases "active (orders i) \<and> 0 <s quantity (orders i) \<and> bp <s price (orders i)")
      case better: True
      with True inb "1.prems"(3) have run: "scanBuy orders c (Suc i) (price (orders i), int i) = Inr r"
        by (simp add: scanBuy.simps[of orders c i bp bi])
      have "best_buy orders (Suc i) (price (orders i), int i)"
        using "1.prems"(1) better
        by (auto simp: best_buy_def live_def less_Suc_eq word_sless_alt word_sle_eq split: if_splits)
      from "1.IH"(1)[OF True inb better this le run] show ?thesis .
    next
      case worse: False
      with True inb "1.prems"(3) have run: "scanBuy orders c (Suc i) (bp, bi) = Inr r"
        by (auto simp add: scanBuy.simps[of orders c i bp bi])
      have "best_buy orders (Suc i) (bp, bi)"
        using "1.prems"(1) worse
        by (auto simp: best_buy_def live_def less_Suc_eq word_sless_alt word_sle_eq split: if_splits)
      from "1.IH"(2)[OF True inb worse this le run] show ?thesis .
    qed
  qed
qed

lemma scanSell_ok: "sint c \<le> 1024 \<Longrightarrow> \<exists>r. scanSell orders c i acc = Inr r"
proof (induction orders c i acc rule: scanSell.induct)
  case (1 orders c i sp si)
  show ?case
  proof (cases "int i < sint c")
    case True
    with "1.prems" have "\<not> unat MAX_ORDERS_PER_SIDE \<le> i"
      by (simp add: MAX_ORDERS_PER_SIDE_def)
    with True "1.IH" "1.prems" show ?thesis
      by (subst scanSell.simps) auto
  next
    case False
    then show ?thesis by (subst scanSell.simps) simp
  qed
qed

lemma scanSell_oob: "1024 < sint c \<Longrightarrow> i \<le> 1024 \<Longrightarrow> scanSell orders c i acc = Inl OutOfBounds"
proof (induction orders c i acc rule: scanSell.induct)
  case (1 orders c i sp si)
  show ?case
  proof (cases "i = 1024")
    case True
    with "1.prems" show ?thesis
      by (subst scanSell.simps) (simp add: MAX_ORDERS_PER_SIDE_def)
  next
    case False
    with "1.prems" have lt: "i < 1024" "int i < sint c" "\<not> unat MAX_ORDERS_PER_SIDE \<le> i"
      by (simp_all add: MAX_ORDERS_PER_SIDE_def)
    with "1.IH" "1.prems" show ?thesis
      by (subst scanSell.simps) auto
  qed
qed

lemma scanSell_best_step:
  "best_sell orders i acc \<Longrightarrow> i \<le> nat (sint c) \<Longrightarrow> scanSell orders c i acc = Inr r \<Longrightarrow>
   best_sell orders (nat (sint c)) r"
proof (induction orders c i acc rule: scanSell.induct)
  case (1 orders c i sp si)
  show ?case
  proof (cases "int i < sint c")
    case False
    with "1.prems" have "i = nat (sint c)" "r = (sp, si)"
      by (auto simp: scanSell.simps[of orders c i sp si])
    with "1.prems" show ?thesis by simp
  next
    case True
    from True "1.prems"(3) have inb: "\<not> unat MAX_ORDERS_PER_SIDE \<le> i"
      by (auto simp: scanSell.simps[of orders c i sp si] split: if_splits)
    from True have le: "Suc i \<le> nat (sint c)" by simp
    show ?thesis
    proof (cases "active (orders i) \<and> 0 <s quantity (orders i) \<and> price (orders i) <s sp")
      case better: True
      with True inb "1.prems"(3) have run: "scanSell orders c (Suc i) (price (orders i), int i) = Inr r"
        by (simp add: scanSell.simps[of orders c i sp si])
      have "best_sell orders (Suc i) (price (orders i), int i)"
        using "1.prems"(1) better
        by (auto simp: best_sell_def live_def less_Suc_eq word_sless_alt word_sle_eq split: if_splits)
      from "1.IH"(1)[OF True inb better this le run] show ?thesis .
    next
      case worse: False
      with True inb "1.prems"(3) have run: "scanSell orders c (Suc i) (sp, si) = Inr r"
        by (auto simp add: scanSell.simps[of orders c i sp si])
      have "best_sell orders (Suc i) (sp, si)"
        using "1.prems"(1) worse
        by (auto simp: best_sell_def live_def less_Suc_eq word_sless_alt word_sle_eq split: if_splits)
      from "1.IH"(2)[OF True inb worse this le run] show ?thesis .
    qed
  qed
qed

lemma occupied_le: "sint c \<le> 1024 \<Longrightarrow> occupied c = nat (sint c)"
  by (simp add: occupied_def MAX_ORDERS_PER_SIDE_def)

lemma bestBuy_count: "bestBuy ob = Inr r \<Longrightarrow> sint (buyCount ob) \<le> 1024"
  using scanBuy_oob[of "buyCount ob" 0 "buyOrders ob" "(0, -1)"]
  by (cases "1024 < sint (buyCount ob)") (simp_all add: bestBuy_def)

lemma bestSell_count: "bestSell ob = Inr r \<Longrightarrow> sint (sellCount ob) \<le> 1024"
  using scanSell_oob[of "sellCount ob" 0 "sellOrders ob" "(1000000, -1)"]
  by (cases "1024 < sint (sellCount ob)") (simp_all add: bestSell_def)

lemma bestBuy_best:
  assumes "bestBuy ob = Inr r"
  shows "best_buy (buyOrders ob) (occupied (buyCount ob)) r"
proof -
  have "best_buy (buyOrders ob) 0 (0, -1)" by (simp add: best_buy_def)
  from scanBuy_best_step[OF this _ assms[unfolded bestBuy_def]]
  show ?thesis by (simp add: occupied_le[OF bestBuy_count[OF assms]])
qed

lemma bestSell_best:
  assumes "bestSell ob = Inr r"
  shows "best_sell (sellOrders ob) (occupied (sellCount ob)) r"
proof -
  have "best_sell (sellOrders ob) 0 (1000000, -1)" by (simp add: best_sell_def)
  from scanSell_best_step[OF this _ assms[unfolded bestSell_def]]
  show ?thesis by (simp add: occupied_le[OF bestSell_count[OF assms]])
qed

section \<open>matchOrder and the sums of quantities\<close>

lemma matchOrder_fill_snd:
  "snd (matchOrder_fill ob b s) = std_min (quantity (buyOrders ob b)) (quantity (sellOrders ob s))"
  by (simp add: matchOrder_fill_def Let_def)

lemma matchOrder_fill_counts:
  "buyCount (fst (matchOrder_fill ob b s)) = buyCount ob"
  "sellCount (fst (matchOrder_fill ob b s)) = sellCount ob"
  by (simp_all add: matchOrder_fill_def Let_def)

lemma matchOrder_fill_buyOrders:
  "buyOrders (fst (matchOrder_fill ob b s)) =
     (buyOrders ob)(b := (buyOrders ob b)
        \<lparr>active := active (buyOrders ob b) \<and> quantity (buyOrders ob b) - snd (matchOrder_fill ob b s) \<noteq> 0,
         quantity := quantity (buyOrders ob b) - snd (matchOrder_fill ob b s)\<rparr>)"
  by (auto simp add: matchOrder_fill_def Let_def fun_eq_iff)

lemma matchOrder_fill_sellOrders:
  "sellOrders (fst (matchOrder_fill ob b s)) =
     (sellOrders ob)(s := (sellOrders ob s)
        \<lparr>active := active (sellOrders ob s) \<and> quantity (sellOrders ob s) - snd (matchOrder_fill ob b s) \<noteq> 0,
         quantity := quantity (sellOrders ob s) - snd (matchOrder_fill ob b s)\<rparr>)"
  by (auto simp add: matchOrder_fill_def Let_def fun_eq_iff)

lemma matchOrder_Inr:
  assumes "matchOrder t st = Inr (st', out)"
  shows "\<exists>bp bi sp si.
     bestBuy (st (hashTicker t)) = Inr (bp, bi) \<and> bestSell (st (hashTicker t)) = Inr (sp, si) \<and>
     (if bi \<noteq> -1 \<and> si \<noteq> -1 \<and> sp \<le>s bp
      then st' = st(hashTicker t := fst (matchOrder_fill (st (hashTicker t)) (nat bi) (nat si)))
           \<and> out = Some \<lparr>matchedQuantity = snd (matchOrder_fill (st (hashTicker t)) (nat bi) (nat si)),
                         matchedTicker = c_str t, buyPrice = bp, sellPrice = sp\<rparr>
      else st' = st \<and> out = None)"
proof -
  let ?ob = "st (hashTicker t)"
  from assms obtain bp bi where b: "scanBuy (buyOrders ?ob) (buyCount ?ob) 0 (0, -1) = Inr (bp, bi)"
    by (auto simp: matchOrder_def Let_def split: sum.splits)
  from assms b obtain sp si
    where s: "scanSell (sellOrders ?ob) (sellCount ?ob) 0 (1000000, -1) = Inr (sp, si)"
    by (auto simp: matchOrder_def Let_def split: sum.splits)
  from assms b s have
    "if bi \<noteq> -1 \<and> si \<noteq> -1 \<and> sp \<le>s bp
      then st' = st(hashTicker t := fst (matchOrder_fill ?ob (nat bi) (nat si)))
           \<and> out = Some \<lparr>matchedQuantity = snd (matchOrder_fill ?ob (nat bi) (nat si)),
                         matchedTicker = c_str t, buyPrice = bp, sellPrice = sp\<rparr>
      else st' = st \<and> out = None"
    by (auto simp: matchOrder_def Let_def split: prod.splits if_splits)
  with b s show ?thesis unfolding bestBuy_def bestSell_def by blast
qed

lemma matchOrder_Inl:
  "(\<exists>e. matchOrder t st = Inl e) \<longleftrightarrow>
     1024 < sint (buyCount (st (hashTicker t))) \<or> 1024 < sint (sellCount (st (hashTicker t)))"
proof -
  let ?ob = "st (hashTicker t)"
  show ?thesis
  proof (cases "1024 < sint (buyCount ?ob)")
    case True
    then show ?thesis
      by (simp add: matchOrder_def Let_def scanBuy_oob)
  next
    case b: False
    then obtain rb where rb: "scanBuy (buyOrders ?ob) (buyCount ?ob) 0 (0, -1) = Inr rb"
      using scanBuy_ok[of "buyCount ?ob" "buyOrders ?ob" 0 "(0, -1)"] by (auto simp: not_less)
    show ?thesis
    proof (cases "1024 < sint (sellCount ?ob)")
      case True
      then show ?thesis
        by (simp add: matchOrder_def Let_def scanSell_oob rb split: prod.splits)
    next
      case False
      then obtain rs where rs: "scanSell (sellOrders ?ob) (sellCount ?ob) 0 (1000000, -1) = Inr rs"
        using scanSell_ok[of "sellCount ?ob" "sellOrders ?ob" 0 "(1000000, -1)"] by (auto simp: not_less)
      with b False rb show ?thesis
        by (simp add: matchOrder_def Let_def split: prod.splits)
    qed
  qed
qed

lemma remaining_update_inside:
  assumes "b < occupied c"
  shows "remaining (orders(b := ord)) c =
           remaining orders c - sint (quantity (orders b)) + sint (quantity ord)"
proof -
  let ?A = "{..<occupied c}"
  have fin: "finite ?A" and mem: "b \<in> ?A" using assms by simp_all
  have "(\<Sum>i\<in>?A. sint (quantity ((orders(b := ord)) i))) =
        sint (quantity ord) + (\<Sum>i\<in>?A - {b}. sint (quantity ((orders(b := ord)) i)))"
    using sum.remove[OF fin mem, of "\<lambda>i. sint (quantity ((orders(b := ord)) i))"] by simp
  moreover have "(\<Sum>i\<in>?A - {b}. sint (quantity ((orders(b := ord)) i))) =
                 (\<Sum>i\<in>?A - {b}. sint (quantity (orders i)))"
    by (rule sum.cong) auto
  moreover have "(\<Sum>i\<in>?A. sint (quantity (orders i))) =
        sint (quantity (orders b)) + (\<Sum>i\<in>?A - {b}. sint (quantity (orders i)))"
    using sum.remove[OF fin mem, of "\<lambda>i. sint (quantity (orders i))"] by simp
  ultimately show ?thesis by (simp add: remaining_def)
qed

lemma remaining_append:
  assumes "0 \<le> sint c" "sint c < 1024"
  shows "remaining (orders(nat (sint c) := ord)) (c + 1) = remaining orders c + sint (quantity ord)"
proof -
  from assms have s: "sint (c + 1) = sint c + 1" by (simp add: sint_succ)
  with assms have o1: "occupied (c + 1) = Suc (nat (sint c))"
    by (simp add: occupied_def MAX_ORDERS_PER_SIDE_def nat_add_distrib)
  from assms have o: "occupied c = nat (sint c)" by (simp add: occupied_le)
  have "(\<Sum>i<nat (sint c). sint (quantity ((orders(nat (sint c) := ord)) i))) =
        (\<Sum>i<nat (sint c). sint (quantity (orders i)))"
    by (rule sum.cong) auto
  then show ?thesis by (simp add: remaining_def o o1)
qed

section \<open>addOrder\<close>

lemma addOrder_Buy:
  assumes "strcmp_is_0 ty ''Buy''"
  shows "addOrder ty t q p st =
     (let ob = st (hashTicker t); pos = buyCount ob in
      if MAX_ORDERS_PER_SIDE \<le>s pos then Inr (st(hashTicker t := ob\<lparr>buyCount := pos + 1\<rparr>))
      else if pos <s 0 then Inl OutOfBounds
      else Inr (st(hashTicker t := ob\<lparr>buyCount := pos + 1,
             buyOrders := (buyOrders ob)(nat (sint pos) :=
               \<lparr>active = True, isBuy = True, quantity = q, price = p\<rparr>)\<rparr>)))"
  using assms by (simp add: addOrder_def Let_def)

lemma addOrder_Sell:
  assumes "strcmp_is_0 ty ''Sell''"
  shows "addOrder ty t q p st =
     (let ob = st (hashTicker t); pos = sellCount ob in
      if MAX_ORDERS_PER_SIDE \<le>s pos then Inr (st(hashTicker t := ob\<lparr>sellCount := pos + 1\<rparr>))
      else if pos <s 0 then Inl OutOfBounds
      else Inr (st(hashTicker t := ob\<lparr>sellCount := pos + 1,
             sellOrders := (sellOrders ob)(nat (sint pos) :=
               \<lparr>active = True, isBuy = False, quantity = q, price = p\<rparr>)\<rparr>)))"
proof -
  from assms have "\<not> strcmp_is_0 ty ''Buy''"
    by (auto simp add: strcmp_is_0_def c_str_def)
  with assms show ?thesis by (simp add: addOrder_def Let_def)
qed

lemma addOrder_other:
  assumes "\<not> strcmp_is_0 ty ''Buy''" "\<not> strcmp_is_0 ty ''Sell''"
  shows "addOrder ty t q p st = Inr st"
  using assms by (simp add: addOrder_def Let_def)

lemma addOrder_buy_side:
  assumes "addOrder ty t q p st = Inr st'"
    and "0 \<le> sint (buyCount (st' k))" "sint (buyCount (st' k)) \<le> 1024"
  shows "0 \<le> sint (buyCount (st k)) \<and> sint (buyCount (st k)) \<le> sint (buyCount (st' k)) \<and>
         remaining (buyOrders (st' k)) (buyCount (st' k)) =
           remaining (buyOrders (st k)) (buyCount (st k))
           + total_quantity (inserted ''Buy'' k (AddOrder ty t q p))"
proof (cases "hashTicker t = k \<and> strcmp_is_0 ty ''Buy''")
  case False
  then have same: "buyOrders (st' k) = buyOrders (st k)" "buyCount (st' k) = buyCount (st k)"
    using assms(1) by (auto simp: addOrder_def Let_def split: if_splits)
  with assms False show ?thesis by (auto simp: total_quantity_def)
next
  case True
  let ?pos = "buyCount (st k)"
  from True have k: "hashTicker t = k" and ty: "strcmp_is_0 ty ''Buy''" by simp_all
  have c': "buyCount (st' k) = ?pos + 1"
    using assms(1) k by (auto simp: addOrder_Buy[OF ty] Let_def split: if_splits)
  have small: "sint ?pos < 2 ^ 31 - 1"
    using sint_succ_max[of ?pos] assms(2) c' by auto
  then have s': "sint (?pos + 1) = sint ?pos + 1" by (rule sint_succ)
  with assms(3) c' have lt: "sint ?pos < 1024" by simp
  then have notfull: "\<not> MAX_ORDERS_PER_SIDE \<le>s ?pos"
    by (simp add: MAX_ORDERS_PER_SIDE_def word_sle_eq)
  with assms(1) k have nonneg: "0 \<le> sint ?pos"
    by (auto simp: addOrder_Buy[OF ty] Let_def word_sless_alt split: if_splits)
  have o': "buyOrders (st' k) = (buyOrders (st k))(nat (sint ?pos) :=
               \<lparr>active = True, isBuy = True, quantity = q, price = p\<rparr>)"
    using assms(1) k notfull nonneg
    by (auto simp: addOrder_Buy[OF ty] Let_def word_sless_alt split: if_splits)
  show ?thesis
    using nonneg lt True by (simp add: c' o' s' remaining_append total_quantity_def)
qed

lemma addOrder_sell_side:
  assumes "addOrder ty t q p st = Inr st'"
    and "0 \<le> sint (sellCount (st' k))" "sint (sellCount (st' k)) \<le> 1024"
  shows "0 \<le> sint (sellCount (st k)) \<and> sint (sellCount (st k)) \<le> sint (sellCount (st' k)) \<and>
         remaining (sellOrders (st' k)) (sellCount (st' k)) =
           remaining (sellOrders (st k)) (sellCount (st k))
           + total_quantity (inserted ''Sell'' k (AddOrder ty t q p))"
proof (cases "hashTicker t = k \<and> strcmp_is_0 ty ''Sell''")
  case False
  then have same: "sellOrders (st' k) = sellOrders (st k)" "sellCount (st' k) = sellCount (st k)"
    using assms(1) by (auto simp: addOrder_def Let_def split: if_splits)
  with assms False show ?thesis by (auto simp: total_quantity_def)
next
  case True
  let ?pos = "sellCount (st k)"
  from True have k: "hashTicker t = k" and ty: "strcmp_is_0 ty ''Sell''" by simp_all
  have c': "sellCount (st' k) = ?pos + 1"
    using assms(1) k by (auto simp: addOrder_Sell[OF ty] Let_def split: if_splits)
  have small: "sint ?pos < 2 ^ 31 - 1"
    using sint_succ_max[of ?pos] assms(2) c' by auto
  then have s': "sint (?pos + 1) = sint ?pos + 1" by (rule sint_succ)
  with assms(3) c' have lt: "sint ?pos < 1024" by simp
  then have notfull: "\<not> MAX_ORDERS_PER_SIDE \<le>s ?pos"
    by (simp add: MAX_ORDERS_PER_SIDE_def word_sle_eq)
  with assms(1) k have nonneg: "0 \<le> sint ?pos"
    by (auto simp: addOrder_Sell[OF ty] Let_def word_sless_alt split: if_splits)
  have o': "sellOrders (st' k) = (sellOrders (st k))(nat (sint ?pos) :=
               \<lparr>active = True, isBuy = False, quantity = q, price = p\<rparr>)"
    using assms(1) k notfull nonneg
    by (auto simp: addOrder_Sell[OF ty] Let_def word_sless_alt split: if_splits)
  show ?thesis
    using nonneg lt True by (simp add: c' o' s' remaining_append total_quantity_def)
qed

section \<open>Conservation of quantity in one call\<close>

lemma matched_Nil: "matched k [] = []"
  by (simp add: matched_def)

lemma matched_append: "matched k (xs @ ys) = matched k xs @ matched k ys"
  by (simp add: matched_def)

lemma total_quantity_append: "total_quantity (xs @ ys) = total_quantity xs + total_quantity ys"
  by (simp add: total_quantity_def)

lemma inserts_Cons: "inserts side k (c # cs) = inserted side k c @ inserts side k cs"
  by (simp add: inserts_def)

text \<open>What a reported match does to the two indices the scans selected.\<close>

lemma matchOrder_Some:
  assumes "matchOrder t st = Inr (st', Some m)"
  shows "\<exists>b s. let ob = st (hashTicker t) in
     bestBuy ob = Inr (buyPrice m, int b) \<and> bestSell ob = Inr (sellPrice m, int s)
     \<and> b < occupied (buyCount ob) \<and> s < occupied (sellCount ob)
     \<and> live (buyOrders ob b) \<and> live (sellOrders ob s)
     \<and> price (buyOrders ob b) = buyPrice m \<and> price (sellOrders ob s) = sellPrice m
     \<and> sellPrice m \<le>s buyPrice m \<and> 0 <s buyPrice m \<and> sellPrice m <s 1000000
     \<and> matchedTicker m = c_str t
     \<and> matchedQuantity m = std_min (quantity (buyOrders ob b)) (quantity (sellOrders ob s))
     \<and> st' = st(hashTicker t := fst (matchOrder_fill ob b s))"
proof -
  let ?ob = "st (hashTicker t)"
  from matchOrder_Inr[OF assms] obtain bp bi sp si where
    b: "bestBuy ?ob = Inr (bp, bi)" and s: "bestSell ?ob = Inr (sp, si)"
    and c: "bi \<noteq> -1" "si \<noteq> -1" "sp \<le>s bp"
    and st': "st' = st(hashTicker t := fst (matchOrder_fill ?ob (nat bi) (nat si)))"
    and m: "m = \<lparr>matchedQuantity = snd (matchOrder_fill ?ob (nat bi) (nat si)),
                 matchedTicker = c_str t, buyPrice = bp, sellPrice = sp\<rparr>"
    by (auto split: if_splits)
  from bestBuy_best[OF b] c(1) have bb: "0 \<le> bi" "nat bi < occupied (buyCount ?ob)"
    "live (buyOrders ?ob (nat bi))" "price (buyOrders ?ob (nat bi)) = bp" "0 <s bp"
    by (simp_all add: best_buy_def)
  from bestSell_best[OF s] c(2) have ss: "0 \<le> si" "nat si < occupied (sellCount ?ob)"
    "live (sellOrders ?ob (nat si))" "price (sellOrders ?ob (nat si)) = sp" "sp <s 1000000"
    by (simp_all add: best_sell_def)
  show ?thesis
    apply (rule exI[of _ "nat bi"], rule exI[of _ "nat si"])
    using b s c st' m bb ss by (simp add: Let_def matchOrder_fill_snd)
qed

lemma matchOrder_buy_side:
  assumes "matchOrder t st = Inr (st', out)"
  shows "buyCount (st' k) = buyCount (st k) \<and>
         remaining (buyOrders (st' k)) (buyCount (st' k))
           + total_quantity (matched k (case out of None \<Rightarrow> [] | Some m \<Rightarrow> [m])) =
         remaining (buyOrders (st k)) (buyCount (st k))"
proof (cases out)
  case None
  with matchOrder_Inr[OF assms] have "st' = st" by (auto split: if_splits)
  with None show ?thesis by (simp add: matched_def total_quantity_def)
next
  case (Some m)
  from matchOrder_Some[OF assms[unfolded Some]] obtain b s where
    b: "b < occupied (buyCount (st (hashTicker t)))"
    and lb: "live (buyOrders (st (hashTicker t)) b)"
    and ls: "live (sellOrders (st (hashTicker t)) s)"
    and tk: "matchedTicker m = c_str t"
    and mq: "matchedQuantity m = std_min (quantity (buyOrders (st (hashTicker t)) b))
                                         (quantity (sellOrders (st (hashTicker t)) s))"
    and st': "st' = st(hashTicker t := fst (matchOrder_fill (st (hashTicker t)) b s))"
    by (auto simp: Let_def)
  show ?thesis
  proof (cases "hashTicker t = k")
    case False
    with st' Some tk show ?thesis
      by (simp add: matched_def total_quantity_def hashTicker_c_str)
  next
    case True
    from lb ls True have pos: "0 <s quantity (buyOrders (st k) b)"
      "0 <s quantity (sellOrders (st k) s)"
      by (auto simp: live_def)
    show ?thesis
      using True b Some tk
      by (simp add: st' matchOrder_fill_counts matchOrder_fill_buyOrders remaining_update_inside
            matchOrder_fill_snd sint_sub_std_min[OF pos] mq matched_def total_quantity_def
            hashTicker_c_str)
  qed
qed

lemma matchOrder_sell_side:
  assumes "matchOrder t st = Inr (st', out)"
  shows "sellCount (st' k) = sellCount (st k) \<and>
         remaining (sellOrders (st' k)) (sellCount (st' k))
           + total_quantity (matched k (case out of None \<Rightarrow> [] | Some m \<Rightarrow> [m])) =
         remaining (sellOrders (st k)) (sellCount (st k))"
proof (cases out)
  case None
  with matchOrder_Inr[OF assms] have "st' = st" by (auto split: if_splits)
  with None show ?thesis by (simp add: matched_def total_quantity_def)
next
  case (Some m)
  from matchOrder_Some[OF assms[unfolded Some]] obtain b s where
    s: "s < occupied (sellCount (st (hashTicker t)))"
    and lb: "live (buyOrders (st (hashTicker t)) b)"
    and ls: "live (sellOrders (st (hashTicker t)) s)"
    and tk: "matchedTicker m = c_str t"
    and mq: "matchedQuantity m = std_min (quantity (buyOrders (st (hashTicker t)) b))
                                         (quantity (sellOrders (st (hashTicker t)) s))"
    and st': "st' = st(hashTicker t := fst (matchOrder_fill (st (hashTicker t)) b s))"
    by (auto simp: Let_def)
  show ?thesis
  proof (cases "hashTicker t = k")
    case False
    with st' Some tk show ?thesis
      by (simp add: matched_def total_quantity_def hashTicker_c_str)
  next
    case True
    from lb ls True have pos: "0 <s quantity (buyOrders (st k) b)"
      "0 <s quantity (sellOrders (st k) s)"
      by (auto simp: live_def)
    show ?thesis
      using True s Some tk
      by (simp add: st' matchOrder_fill_counts matchOrder_fill_sellOrders remaining_update_inside
            matchOrder_fill_snd sint_sub_std_min[OF pos] mq matched_def total_quantity_def
            hashTicker_c_str)
  qed
qed

section \<open>Conservation of quantity along a sequence of calls\<close>

lemma exec_call_buy_side:
  assumes "exec_call c st = Inr (st1, out)"
    and "0 \<le> sint (buyCount (st1 k))" "sint (buyCount (st1 k)) \<le> 1024"
  shows "0 \<le> sint (buyCount (st k)) \<and> sint (buyCount (st k)) \<le> sint (buyCount (st1 k)) \<and>
         remaining (buyOrders (st1 k)) (buyCount (st1 k)) + total_quantity (matched k out) =
           remaining (buyOrders (st k)) (buyCount (st k)) + total_quantity (inserted ''Buy'' k c)"
proof (cases c)
  case (AddOrder ty t q p)
  with assms(1) have a: "addOrder ty t q p st = Inr st1" and o: "out = []"
    by (auto split: sum.splits)
  from addOrder_buy_side[OF a assms(2,3)] show ?thesis
    by (simp add: AddOrder o matched_Nil total_quantity_def)
next
  case (MatchOrder t)
  with assms(1) obtain r where m: "matchOrder t st = Inr (st1, r)"
    and o: "out = (case r of None \<Rightarrow> [] | Some m \<Rightarrow> [m])"
    by (auto split: sum.splits)
  from matchOrder_buy_side[OF m, of k] assms(2) show ?thesis
    by (auto simp add: MatchOrder o total_quantity_def)
qed

lemma exec_call_sell_side:
  assumes "exec_call c st = Inr (st1, out)"
    and "0 \<le> sint (sellCount (st1 k))" "sint (sellCount (st1 k)) \<le> 1024"
  shows "0 \<le> sint (sellCount (st k)) \<and> sint (sellCount (st k)) \<le> sint (sellCount (st1 k)) \<and>
         remaining (sellOrders (st1 k)) (sellCount (st1 k)) + total_quantity (matched k out) =
           remaining (sellOrders (st k)) (sellCount (st k)) + total_quantity (inserted ''Sell'' k c)"
proof (cases c)
  case (AddOrder ty t q p)
  with assms(1) have a: "addOrder ty t q p st = Inr st1" and o: "out = []"
    by (auto split: sum.splits)
  from addOrder_sell_side[OF a assms(2,3)] show ?thesis
    by (simp add: AddOrder o matched_Nil total_quantity_def)
next
  case (MatchOrder t)
  with assms(1) obtain r where m: "matchOrder t st = Inr (st1, r)"
    and o: "out = (case r of None \<Rightarrow> [] | Some m \<Rightarrow> [m])"
    by (auto split: sum.splits)
  from matchOrder_sell_side[OF m, of k] assms(2) show ?thesis
    by (auto simp add: MatchOrder o total_quantity_def)
qed

lemma exec_Cons_Inr:
  assumes "exec (c # cs) st = Inr (st', ms)"
  obtains st1 out1 out2 where "exec_call c st = Inr (st1, out1)"
    "exec cs st1 = Inr (st', out2)" "ms = out1 @ out2"
  using assms by (auto split: sum.splits)

lemma exec_buy_side:
  assumes "exec cs st = Inr (st', ms)"
    and "0 \<le> sint (buyCount (st' k))" "sint (buyCount (st' k)) \<le> 1024"
  shows "0 \<le> sint (buyCount (st k)) \<and> sint (buyCount (st k)) \<le> sint (buyCount (st' k)) \<and>
         remaining (buyOrders (st' k)) (buyCount (st' k)) + total_quantity (matched k ms) =
           remaining (buyOrders (st k)) (buyCount (st k)) + total_quantity (inserts ''Buy'' k cs)"
  using assms
proof (induction cs arbitrary: st ms)
  case Nil
  then show ?case by (simp add: matched_def total_quantity_def inserts_def)
next
  case (Cons c cs)
  from Cons.prems(1) obtain st1 out1 out2 where
    c: "exec_call c st = Inr (st1, out1)" and cs: "exec cs st1 = Inr (st', out2)"
    and ms: "ms = out1 @ out2"
    by (rule exec_Cons_Inr)
  from Cons.IH[OF cs Cons.prems(2,3)] have
    ih: "0 \<le> sint (buyCount (st1 k))" "sint (buyCount (st1 k)) \<le> sint (buyCount (st' k))"
     "remaining (buyOrders (st' k)) (buyCount (st' k)) + total_quantity (matched k out2) =
      remaining (buyOrders (st1 k)) (buyCount (st1 k)) + total_quantity (inserts ''Buy'' k cs)"
    by simp_all
  from ih(2) Cons.prems(3) have "sint (buyCount (st1 k)) \<le> 1024" by simp
  from exec_call_buy_side[OF c ih(1) this] ih show ?case
    by (simp add: ms matched_append total_quantity_append inserts_Cons)
qed

lemma exec_sell_side:
  assumes "exec cs st = Inr (st', ms)"
    and "0 \<le> sint (sellCount (st' k))" "sint (sellCount (st' k)) \<le> 1024"
  shows "0 \<le> sint (sellCount (st k)) \<and> sint (sellCount (st k)) \<le> sint (sellCount (st' k)) \<and>
         remaining (sellOrders (st' k)) (sellCount (st' k)) + total_quantity (matched k ms) =
           remaining (sellOrders (st k)) (sellCount (st k)) + total_quantity (inserts ''Sell'' k cs)"
  using assms
proof (induction cs arbitrary: st ms)
  case Nil
  then show ?case by (simp add: matched_def total_quantity_def inserts_def)
next
  case (Cons c cs)
  from Cons.prems(1) obtain st1 out1 out2 where
    c: "exec_call c st = Inr (st1, out1)" and cs: "exec cs st1 = Inr (st', out2)"
    and ms: "ms = out1 @ out2"
    by (rule exec_Cons_Inr)
  from Cons.IH[OF cs Cons.prems(2,3)] have
    ih: "0 \<le> sint (sellCount (st1 k))" "sint (sellCount (st1 k)) \<le> sint (sellCount (st' k))"
     "remaining (sellOrders (st' k)) (sellCount (st' k)) + total_quantity (matched k out2) =
      remaining (sellOrders (st1 k)) (sellCount (st1 k)) + total_quantity (inserts ''Sell'' k cs)"
    by simp_all
  from ih(2) Cons.prems(3) have "sint (sellCount (st1 k)) \<le> 1024" by simp
  from exec_call_sell_side[OF c ih(1) this] ih show ?case
    by (simp add: ms matched_append total_quantity_append inserts_Cons)
qed

text \<open>Every call for a side increments its counter, stored or dropped.\<close>

lemma addOrder_counts:
  assumes "addOrder ty t q p st = Inr st'"
  shows "buyCount (st' k) = buyCount (st k) + of_nat (length (inserted ''Buy'' k (AddOrder ty t q p)))"
    and "sellCount (st' k) = sellCount (st k) + of_nat (length (inserted ''Sell'' k (AddOrder ty t q p)))"
proof -
  consider (b) "strcmp_is_0 ty ''Buy''" | (s) "strcmp_is_0 ty ''Sell''"
    | (o) "\<not> strcmp_is_0 ty ''Buy''" "\<not> strcmp_is_0 ty ''Sell''" by blast
  then have "buyCount (st' k) = buyCount (st k) + of_nat (length (inserted ''Buy'' k (AddOrder ty t q p)))
     \<and> sellCount (st' k) = sellCount (st k) + of_nat (length (inserted ''Sell'' k (AddOrder ty t q p)))"
  proof cases
    case b
    from b have ns: "\<not> strcmp_is_0 ty ''Sell''" by (rule not_Buy_and_Sell)
    from assms show ?thesis
      by (auto simp: addOrder_Buy[OF b] Let_def b ns split: if_splits)
  next
    case s
    from s have nb: "\<not> strcmp_is_0 ty ''Buy''" using not_Buy_and_Sell by blast
    from assms show ?thesis
      by (auto simp: addOrder_Sell[OF s] Let_def s nb split: if_splits)
  next
    case o
    with assms show ?thesis by (simp add: addOrder_other)
  qed
  then show "buyCount (st' k) = buyCount (st k) + of_nat (length (inserted ''Buy'' k (AddOrder ty t q p)))"
    and "sellCount (st' k) = sellCount (st k) + of_nat (length (inserted ''Sell'' k (AddOrder ty t q p)))"
    by simp_all
qed

lemma exec_call_counts:
  assumes "exec_call c st = Inr (st1, out)"
  shows "buyCount (st1 k) = buyCount (st k) + of_nat (length (inserted ''Buy'' k c))
       \<and> sellCount (st1 k) = sellCount (st k) + of_nat (length (inserted ''Sell'' k c))"
proof (cases c)
  case (AddOrder ty t q p)
  with assms have a: "addOrder ty t q p st = Inr st1" by (auto split: sum.splits)
  from addOrder_counts[OF a, of k] show ?thesis by (simp add: AddOrder)
next
  case (MatchOrder t)
  with assms obtain r where m: "matchOrder t st = Inr (st1, r)" by (auto split: sum.splits)
  from matchOrder_buy_side[OF m, of k] matchOrder_sell_side[OF m, of k] show ?thesis
    by (simp add: MatchOrder)
qed

lemma exec_counts:
  assumes "exec cs st = Inr (st', ms)"
  shows "buyCount (st' k) = buyCount (st k) + of_nat (length (inserts ''Buy'' k cs))
       \<and> sellCount (st' k) = sellCount (st k) + of_nat (length (inserts ''Sell'' k cs))"
  using assms
proof (induction cs arbitrary: st ms)
  case Nil
  then show ?case by (simp add: inserts_def)
next
  case (Cons c cs)
  from Cons.prems obtain st1 out1 out2 where
    c: "exec_call c st = Inr (st1, out1)" and cs: "exec cs st1 = Inr (st', out2)"
    by (rule exec_Cons_Inr)
  from exec_call_counts[OF c, of k] Cons.IH[OF cs] show ?case
    by (simp add: inserts_Cons)
qed

lemma remaining_0: "remaining orders 0 = 0"
  by (simp add: remaining_def occupied_def)

lemma exec_from_start_buy:
  assumes "exec cs orderBooks0 = Inr (st, ms)" "length (inserts ''Buy'' k cs) \<le> 1024"
  shows "total_quantity (inserts ''Buy'' k cs) =
           remaining (buyOrders (st k)) (buyCount (st k)) + total_quantity (matched k ms)"
proof -
  from exec_counts[OF assms(1), of k]
  have c: "buyCount (st k) = of_nat (length (inserts ''Buy'' k cs))"
    by (simp add: orderBooks0_def OrderBook0_def)
  from assms(2) have "sint (buyCount (st k)) = int (length (inserts ''Buy'' k cs))"
    by (simp add: c sint_of_nat_small)
  with assms(2) have "0 \<le> sint (buyCount (st k))" "sint (buyCount (st k)) \<le> 1024"
    by simp_all
  from exec_buy_side[OF assms(1) this] show ?thesis
    by (simp add: orderBooks0_def OrderBook0_def remaining_0)
qed

lemma exec_from_start_sell:
  assumes "exec cs orderBooks0 = Inr (st, ms)" "length (inserts ''Sell'' k cs) \<le> 1024"
  shows "total_quantity (inserts ''Sell'' k cs) =
           remaining (sellOrders (st k)) (sellCount (st k)) + total_quantity (matched k ms)"
proof -
  from exec_counts[OF assms(1), of k]
  have c: "sellCount (st k) = of_nat (length (inserts ''Sell'' k cs))"
    by (simp add: orderBooks0_def OrderBook0_def)
  from assms(2) have "sint (sellCount (st k)) = int (length (inserts ''Sell'' k cs))"
    by (simp add: c sint_of_nat_small)
  with assms(2) have "0 \<le> sint (sellCount (st k))" "sint (sellCount (st k)) \<le> 1024"
    by simp_all
  from exec_sell_side[OF assms(1) this] show ?thesis
    by (simp add: orderBooks0_def OrderBook0_def remaining_0)
qed

section \<open>Concrete runs\<close>

lemma hashTicker_AAPL: "hashTicker ''AAPL'' = 540"
  by (simp add: hashTicker_def char_to_uint_def MAX_TICKERS_def)

lemma strcmp_Buy_Sell:
  "strcmp_is_0 ''Buy'' ''Buy''" "strcmp_is_0 ''Sell'' ''Sell''"
  "\<not> strcmp_is_0 ''Sell'' ''Buy''" "\<not> strcmp_is_0 ''Buy'' ''Sell''"
  by (simp_all add: strcmp_is_0_def c_str_def)

lemma c_str_AAPL: "c_str ''AAPL'' = ''AAPL''"
  by (simp add: c_str_def)

lemmas run_simps =
  addOrder_def matchOrder_def matchOrder_fill_def Let_def hashTicker_AAPL strcmp_Buy_Sell
  c_str_AAPL orderBooks0_def OrderBook0_def Order0_def MAX_ORDERS_PER_SIDE_def
  scanBuy.simps scanSell.simps std_min_def word_sless_alt word_sle_eq

lemma exec_append:
  "exec (xs @ ys) st =
     (case exec xs st of
        Inl e \<Rightarrow> Inl e
      | Inr (st1, out1) \<Rightarrow>
          (case exec ys st1 of
             Inl e \<Rightarrow> Inl e
           | Inr (st2, out2) \<Rightarrow> Inr (st2, out1 @ out2)))"
  by (induction xs arbitrary: st) (auto split: sum.splits)

lemma filled_0: "filled 0 = orderBooks0"
  by (auto simp: filled_def orderBooks0_def OrderBook0_def fun_eq_iff)

lemma addOrder_filled:
  assumes "n < 1024"
  shows "addOrder ''Buy'' ''AAPL'' 1 1 (filled n) = Inr (filled (Suc n))"
proof -
  from assms have s: "sint (of_nat n :: cint) = int n" by (simp add: sint_of_nat_small)
  have "(\<lambda>i. if i < n then \<lparr>active = True, isBuy = True, quantity = 1, price = 1\<rparr> else Order0)
          (n := \<lparr>active = True, isBuy = True, quantity = 1, price = 1\<rparr>)
        = (\<lambda>i. if i < Suc n then \<lparr>active = True, isBuy = True, quantity = 1, price = 1\<rparr> else Order0)"
    by (auto simp: fun_eq_iff)
  with assms show ?thesis
    by (simp add: addOrder_Buy[OF strcmp_Buy_Sell(1)] filled_def Let_def
          MAX_ORDERS_PER_SIDE_def word_sle_eq word_sless_alt s add.commute)
qed

lemma exec_filled_from:
  "m + n \<le> 1024 \<Longrightarrow>
   exec (replicate n (AddOrder ''Buy'' ''AAPL'' 1 1)) (filled m) = Inr (filled (m + n), [])"
proof (induction n arbitrary: m)
  case 0
  then show ?case by simp
next
  case (Suc n)
  from Suc.prems have "m < 1024" "Suc m + n \<le> 1024" by simp_all
  with Suc.IH[of "Suc m"] show ?case
    by (simp add: addOrder_filled)
qed

lemma exec_filled:
  "n \<le> 1024 \<Longrightarrow> exec (replicate n (AddOrder ''Buy'' ''AAPL'' 1 1)) orderBooks0 = Inr (filled n, [])"
  using exec_filled_from[of 0 n] by (simp add: filled_0)

lemma addOrder_full: "addOrder ''Buy'' ''AAPL'' 1 1 (filled 1024) = Inr overfull"
  by (simp add: addOrder_Buy[OF strcmp_Buy_Sell(1)] filled_def overfull_def Let_def
        MAX_ORDERS_PER_SIDE_def word_sle_eq)

lemma exec_overfull:
  "exec (replicate 1025 (AddOrder ''Buy'' ''AAPL'' 1 1)) orderBooks0 = Inr (overfull, [])"
proof -
  have "(1025 :: nat) = Suc 1024" by simp
  then have "replicate 1025 (AddOrder ''Buy'' ''AAPL'' 1 1) =
        replicate 1024 (AddOrder ''Buy'' ''AAPL'' 1 1) @ [AddOrder ''Buy'' ''AAPL'' 1 1]"
    by (simp only: replicate_Suc replicate_append_same)
  then show ?thesis
    by (simp add: exec_append exec_filled addOrder_full)
qed

lemma matchOrder_overfull: "matchOrder ''AAPL'' overfull = Inl OutOfBounds"
proof -
  have "1024 < sint (buyCount (overfull (hashTicker ''AAPL'')))"
    by (simp add: overfull_def)
  then obtain e where "matchOrder ''AAPL'' overfull = Inl e"
    using matchOrder_Inl[of "''AAPL''" overfull] by blast
  then show ?thesis by (cases e) simp
qed

lemma remaining_filled:
  assumes "n \<le> 1024"
  shows "remaining (buyOrders (filled n (hashTicker ''AAPL''))) (of_nat n) = int n"
proof -
  from assms have "occupied (of_nat n) = n"
    by (simp add: occupied_def MAX_ORDERS_PER_SIDE_def sint_of_nat_small)
  then show ?thesis
    by (simp add: remaining_def filled_def)
qed

lemma exec_full_fill: "exec full_fill_calls orderBooks0 = Inr (full_fill_books, [full_fill_line])"
  by (simp add: full_fill_calls_def full_fill_books_def full_fill_line_def run_simps)

lemma inserts_replicate_Buy:
  "total_quantity (inserts ''Buy'' (hashTicker ''AAPL'') (replicate n (AddOrder ''Buy'' ''AAPL'' 1 1))) = int n"
  "inserts ''Sell'' (hashTicker ''AAPL'') (replicate n (AddOrder ''Buy'' ''AAPL'' 1 1)) = []"
  by (induction n) (simp_all add: inserts_def total_quantity_def strcmp_Buy_Sell)

lemma total_quantity_Nil: "total_quantity [] = 0"
  by (simp add: total_quantity_def)

lemma remaining_overfull:
  "remaining (buyOrders (overfull (hashTicker ''AAPL''))) (buyCount (overfull (hashTicker ''AAPL''))) = 1024"
proof -
  have "occupied (1025 :: cint) = occupied (of_nat 1024)"
    by (simp add: occupied_def MAX_ORDERS_PER_SIDE_def)
  then have "remaining (buyOrders (filled 1024 (hashTicker ''AAPL''))) 1025 =
             remaining (buyOrders (filled 1024 (hashTicker ''AAPL''))) (of_nat 1024)"
    by (simp only: remaining_def)
  also have "\<dots> = 1024" using remaining_filled[of 1024] by simp
  finally show ?thesis by (simp add: overfull_def)
qed

lemma full_fill_inserts:
  "inserts ''Buy'' (hashTicker ''AAPL'') full_fill_calls = [100]"
  "inserts ''Sell'' (hashTicker ''AAPL'') full_fill_calls = [100]"
  "matched (hashTicker ''AAPL'') [full_fill_line] = [100]"
  by (simp_all add: inserts_def full_fill_calls_def strcmp_Buy_Sell matched_def full_fill_line_def)

lemma full_fill_remaining:
  "remaining (buyOrders (full_fill_books (hashTicker ''AAPL''))) (buyCount (full_fill_books (hashTicker ''AAPL''))) = 0"
  "remaining (sellOrders (full_fill_books (hashTicker ''AAPL''))) (sellCount (full_fill_books (hashTicker ''AAPL''))) = 0"
  using exec_from_start_buy[OF exec_full_fill, of "hashTicker ''AAPL''"]
    exec_from_start_sell[OF exec_full_fill, of "hashTicker ''AAPL''"]
  by (simp_all add: full_fill_inserts total_quantity_def)

lemma exec_partial_fill_start:
  "exec [AddOrder ''Buy'' ''AAPL'' 300 60, AddOrder ''Sell'' ''AAPL'' 100 55] orderBooks0
     = Inr (partial_fill_start, [])"
  by (simp add: partial_fill_start_def run_simps)

lemma match_partial_fill:
  "matchOrder ''AAPL'' partial_fill_start = Inr (partial_fill_books, Some partial_fill_line)"
  by (simp add: partial_fill_start_def partial_fill_books_def partial_fill_line_def run_simps)

lemma exec_tie_start:
  "exec [AddOrder ''Buy'' ''AAPL'' 10 50, AddOrder ''Buy'' ''AAPL'' 10 50,
         AddOrder ''Sell'' ''AAPL'' 5 50] orderBooks0 = Inr (tie_start, [])"
  by (simp add: tie_start_def run_simps)

lemma match_tie: "matchOrder ''AAPL'' tie_start = Inr (tie_books, Some tie_line)"
  by (simp add: tie_start_def tie_books_def tie_line_def run_simps fun_upd_twist[of "Suc 0" 0])

lemma exec_unseen:
  "exec [AddOrder ''Buy'' ''AAPL'' 10 0, AddOrder ''Sell'' ''AAPL'' 10 1000000] orderBooks0
     = Inr (unseen_books, [])"
  by (simp add: unseen_books_def run_simps)

lemma exec_uncrossed:
  "exec [AddOrder ''Buy'' ''AAPL'' 10 40, AddOrder ''Sell'' ''AAPL'' 10 50] orderBooks0
     = Inr (uncrossed_books, [])"
  by (simp add: uncrossed_books_def run_simps)

lemma match_uncrossed: "matchOrder ''AAPL'' uncrossed_books = Inr (uncrossed_books, None)"
  by (simp add: uncrossed_books_def run_simps)

lemma exec_two_sells_start:
  "exec [AddOrder ''Buy'' ''AAPL'' 100 50, AddOrder ''Sell'' ''AAPL'' 50 40,
         AddOrder ''Sell'' ''AAPL'' 50 40] orderBooks0 = Inr (two_sells_start, [])"
  by (simp add: two_sells_start_def run_simps)

lemma match_two_sells:
  "matchOrder ''AAPL'' two_sells_start = Inr (two_sells_books, Some two_sells_line)"
  by (simp add: two_sells_start_def two_sells_books_def two_sells_line_def run_simps
        fun_upd_twist[of "Suc 0" 0])

lemma bestBuy_tie: "bestBuy (tie_start (hashTicker ''AAPL'')) = Inr (50, 0)"
  by (simp add: bestBuy_def tie_start_def run_simps)

lemma bestSell_tie: "bestSell (tie_start (hashTicker ''AAPL'')) = Inr (50, 0)"
  by (simp add: bestSell_def tie_start_def run_simps)

lemma best_unseen:
  "bestBuy (unseen_books (hashTicker ''AAPL'')) = Inr (0, -1)"
  "bestSell (unseen_books (hashTicker ''AAPL'')) = Inr (1000000, -1)"
  "live (buyOrders (unseen_books (hashTicker ''AAPL'')) 0)"
  "live (sellOrders (unseen_books (hashTicker ''AAPL'')) 0)"
  by (simp_all add: bestBuy_def bestSell_def unseen_books_def live_def run_simps)

lemma match_empty: "matchOrder ''AAPL'' orderBooks0 = Inr (orderBooks0, None)"
  by (simp add: run_simps)

lemma tie_counts:
  "sint (buyCount (tie_start (hashTicker ''AAPL''))) \<le> 1024"
  "sint (sellCount (tie_start (hashTicker ''AAPL''))) \<le> 1024"
  "0 \<le>s buyCount (tie_start (hashTicker ''AAPL''))"
  "buyCount (tie_start (hashTicker ''AAPL'')) <s MAX_ORDERS_PER_SIDE"
  by (simp_all add: tie_start_def MAX_ORDERS_PER_SIDE_def word_sle_eq word_sless_alt)

section \<open>The shard router\<close>

lemma hashTicker_lt: "hashTicker t < 1024"
proof -
  have "hashTicker_loop 0 t mod 1024 < (1024 :: 32 word)"
    by (rule word_mod_less_divisor) simp
  then have "unat (hashTicker_loop 0 t mod 1024) < unat (1024 :: 32 word)"
    by (simp only: word_less_nat_alt)
  then show ?thesis
    by (simp add: hashTicker_def MAX_TICKERS_def)
qed

lemma hashTicker_Aa_BB: "hashTicker ''Aa'' = 64" "hashTicker ''BB'' = 64"
  by (simp_all add: hashTicker_def char_to_uint_def MAX_TICKERS_def)

lemma c_str_Aa: "c_str ''Aa'' = ''Aa''"
  by (simp add: c_str_def)

lemma exec_alias: "exec alias_calls orderBooks0 = Inr (alias_books, [alias_line])"
  by (simp add: alias_calls_def alias_books_def alias_line_def hashTicker_Aa_BB c_str_Aa run_simps)

lemma addOrder_hash_only:
  "hashTicker t = hashTicker t' \<Longrightarrow> addOrder ty t q p st = addOrder ty t' q p st"
  by (simp add: addOrder_def)

lemma MAX_TICKERS_unat: "unat MAX_TICKERS = 1024"
  by (simp add: MAX_TICKERS_def)

text \<open>
  C3. The shard router maps every instrument identifier to exactly one \<open>OrderBook\<close>, the
  one at index \<open>hashTicker\<close> of the identifier, an index below \<open>MAX_TICKERS\<close>. The mapping
  is not one-to-one: two identifiers of the same index resolve to the same \<open>OrderBook\<close>,
  and \<open>addOrder\<close> does for the one what it does for the other.
\<close>

theorem hashTicker_routes_by_index:
  "hashTicker t < unat MAX_TICKERS
   \<and> (hashTicker t = hashTicker t' \<longrightarrow> addOrder ty t q p st = addOrder ty t' q p st)"
  using hashTicker_lt[of t] addOrder_hash_only[of t t' ty q p st]
  by (simp add: MAX_TICKERS_unat)

theorem hashTicker_routes_by_index_witness:
  "hashTicker ''Aa'' < unat MAX_TICKERS
   \<and> hashTicker ''Aa'' = hashTicker ''BB''
   \<and> addOrder ''Buy'' ''Aa'' 10 5 orderBooks0 = addOrder ''Buy'' ''BB'' 10 5 orderBooks0"
  using hashTicker_routes_by_index[of "''Aa''" "''BB''" "''Buy''" 10 5 orderBooks0]
  by (simp add: hashTicker_Aa_BB)

text \<open>
  The identifiers \<open>''Aa''\<close> and \<open>''BB''\<close> are distinct and resolve to the same book: a
  buy order for \<open>''Aa''\<close> is matched against a sell order for \<open>''BB''\<close>.
\<close>

theorem hashTicker_one_to_one_counterexample:
  "''Aa'' \<noteq> ''BB'' \<and> hashTicker ''Aa'' = hashTicker ''BB''
   \<and> exec alias_calls orderBooks0 = Inr (alias_books, [alias_line])"
  by (simp add: hashTicker_Aa_BB exec_alias)

section \<open>No lost quantity\<close>

text \<open>
  C1. For every sequence of \<open>addOrder\<close> and \<open>matchOrder\<close> calls from the initial state that
  runs without an out-of-bounds access, for every book \<open>k\<close> (so for the book of any one
  instrument), and for each side apart on which at most \<open>MAX_ORDERS_PER_SIDE\<close> orders
  were inserted: the total quantity inserted on that side equals the sum of the
  remaining quantities of that side's orders plus the sum of the matched quantities
  reported for the book. The sequence is arbitrary, so this holds at every point of it.
\<close>

theorem no_lost_quantity_per_side:
  assumes "exec cs orderBooks0 = Inr (st, ms)"
  shows "(length (inserts ''Buy'' k cs) \<le> 1024 \<longrightarrow>
            total_quantity (inserts ''Buy'' k cs) =
              remaining (buyOrders (st k)) (buyCount (st k)) + total_quantity (matched k ms))
       \<and> (length (inserts ''Sell'' k cs) \<le> 1024 \<longrightarrow>
            total_quantity (inserts ''Sell'' k cs) =
              remaining (sellOrders (st k)) (sellCount (st k)) + total_quantity (matched k ms))"
  using exec_from_start_buy[OF assms] exec_from_start_sell[OF assms] by blast

theorem no_lost_quantity_per_side_witness:
  "exec full_fill_calls orderBooks0 = Inr (full_fill_books, [full_fill_line])
   \<and> length (inserts ''Buy'' (hashTicker ''AAPL'') full_fill_calls) \<le> 1024
   \<and> total_quantity (inserts ''Buy'' (hashTicker ''AAPL'') full_fill_calls) =
       remaining (buyOrders (full_fill_books (hashTicker ''AAPL'')))
                 (buyCount (full_fill_books (hashTicker ''AAPL'')))
       + total_quantity (matched (hashTicker ''AAPL'') [full_fill_line])
   \<and> length (inserts ''Sell'' (hashTicker ''AAPL'') full_fill_calls) \<le> 1024
   \<and> total_quantity (inserts ''Sell'' (hashTicker ''AAPL'') full_fill_calls) =
       remaining (sellOrders (full_fill_books (hashTicker ''AAPL'')))
                 (sellCount (full_fill_books (hashTicker ''AAPL'')))
       + total_quantity (matched (hashTicker ''AAPL'') [full_fill_line])"
  using no_lost_quantity_per_side[OF exec_full_fill, of "hashTicker ''AAPL''"]
  by (simp add: exec_full_fill full_fill_inserts)

text \<open>
  The property as worded fails twice. Over both sides of the book a fill takes its
  quantity from the buy order and from the sell order and is reported once: after a buy
  and a sell of 100 are matched, 200 was inserted, nothing remains and 100 is reported.
  And the 1025th order of a side is dropped: 1025 was inserted, 1024 remains.
\<close>

theorem no_lost_quantity_counterexample:
  "exec full_fill_calls orderBooks0 = Inr (full_fill_books, [full_fill_line])
   \<and> \<not> no_lost_quantity (hashTicker ''AAPL'') full_fill_calls full_fill_books [full_fill_line]
   \<and> exec (replicate 1025 (AddOrder ''Buy'' ''AAPL'' 1 1)) orderBooks0 = Inr (overfull, [])
   \<and> \<not> no_lost_quantity (hashTicker ''AAPL'') (replicate 1025 (AddOrder ''Buy'' ''AAPL'' 1 1))
          overfull []"
proof -
  have a: "\<not> no_lost_quantity (hashTicker ''AAPL'') full_fill_calls full_fill_books [full_fill_line]"
    by (simp add: no_lost_quantity_def full_fill_inserts full_fill_remaining total_quantity_def)
  have "sellCount (overfull (hashTicker ''AAPL'')) = 0"
    by (simp add: overfull_def filled_def)
  then have b: "\<not> no_lost_quantity (hashTicker ''AAPL'')
                  (replicate 1025 (AddOrder ''Buy'' ''AAPL'' 1 1)) overfull []"
    by (simp add: no_lost_quantity_def inserts_replicate_Buy remaining_overfull remaining_0
          matched_Nil total_quantity_Nil)
  from a b show ?thesis by (simp add: exec_full_fill exec_overfull)
qed

section \<open>Capacity\<close>

lemma addOrder_full_Buy:
  assumes "MAX_ORDERS_PER_SIDE \<le>s buyCount (st (hashTicker t))"
  shows "addOrder ''Buy'' t q p st =
           Inr (st(hashTicker t := (st (hashTicker t))\<lparr>buyCount := buyCount (st (hashTicker t)) + 1\<rparr>))"
  using assms by (simp add: addOrder_Buy[OF strcmp_Buy_Sell(1)] Let_def)

lemma addOrder_full_Sell:
  assumes "MAX_ORDERS_PER_SIDE \<le>s sellCount (st (hashTicker t))"
  shows "addOrder ''Sell'' t q p st =
           Inr (st(hashTicker t := (st (hashTicker t))\<lparr>sellCount := sellCount (st (hashTicker t)) + 1\<rparr>))"
  using assms by (simp add: addOrder_Sell[OF strcmp_Buy_Sell(2)] Let_def)

text \<open>
  C2. When an order is inserted and the target side's store is already full (its counter
  has reached \<open>MAX_ORDERS_PER_SIDE\<close>), \<open>addOrder\<close> returns normally and signals nothing to
  the caller: the order is dropped, and every order slot of every book, the counter of
  the other side and the other books are left unchanged.
\<close>

theorem addOrder_at_capacity_drops:
  "(MAX_ORDERS_PER_SIDE \<le>s buyCount (st (hashTicker t)) \<longrightarrow>
      (\<exists>st'. addOrder ''Buy'' t q p st = Inr st'
         \<and> (\<forall>k. buyOrders (st' k) = buyOrders (st k) \<and> sellOrders (st' k) = sellOrders (st k)
                \<and> sellCount (st' k) = sellCount (st k))
         \<and> (\<forall>k. k \<noteq> hashTicker t \<longrightarrow> st' k = st k)))
   \<and> (MAX_ORDERS_PER_SIDE \<le>s sellCount (st (hashTicker t)) \<longrightarrow>
      (\<exists>st'. addOrder ''Sell'' t q p st = Inr st'
         \<and> (\<forall>k. buyOrders (st' k) = buyOrders (st k) \<and> sellOrders (st' k) = sellOrders (st k)
                \<and> buyCount (st' k) = buyCount (st k))
         \<and> (\<forall>k. k \<noteq> hashTicker t \<longrightarrow> st' k = st k)))"
  by (simp add: addOrder_full_Buy addOrder_full_Sell)

theorem addOrder_at_capacity_drops_witness:
  "MAX_ORDERS_PER_SIDE \<le>s buyCount (filled 1024 (hashTicker ''AAPL''))
   \<and> (\<exists>st'. addOrder ''Buy'' ''AAPL'' 7 9 (filled 1024) = Inr st'
         \<and> (\<forall>k. buyOrders (st' k) = buyOrders (filled 1024 k)
                \<and> sellOrders (st' k) = sellOrders (filled 1024 k)
                \<and> sellCount (st' k) = sellCount (filled 1024 k))
         \<and> (\<forall>k. k \<noteq> hashTicker ''AAPL'' \<longrightarrow> st' k = filled 1024 k))"
proof -
  have full: "MAX_ORDERS_PER_SIDE \<le>s buyCount (filled 1024 (hashTicker ''AAPL''))"
    by (simp add: filled_def MAX_ORDERS_PER_SIDE_def)
  with addOrder_at_capacity_drops[of "filled 1024" "''AAPL''" 7 9] show ?thesis
    by blast
qed

text \<open>
  After 1024 buy orders the buy side of the book is full. One more \<open>addOrder\<close> returns
  normally, with no error, and the state has changed: the counter is 1025.
\<close>

theorem addOrder_at_capacity_counterexample:
  "exec (replicate 1024 (AddOrder ''Buy'' ''AAPL'' 1 1)) orderBooks0 = Inr (filled 1024, [])
   \<and> buyCount (filled 1024 (hashTicker ''AAPL'')) = 1024
   \<and> addOrder ''Buy'' ''AAPL'' 1 1 (filled 1024) = Inr overfull
   \<and> buyCount (overfull (hashTicker ''AAPL'')) = 1025
   \<and> overfull \<noteq> filled 1024"
proof -
  have c: "buyCount (filled 1024 (hashTicker ''AAPL'')) = 1024"
    "buyCount (overfull (hashTicker ''AAPL'')) = 1025"
    by (simp_all add: filled_def overfull_def)
  then have "overfull \<noteq> filled 1024" by auto
  with c show ?thesis by (simp add: exec_filled addOrder_full)
qed

section \<open>The counters and the bounds of the arrays\<close>

text \<open>
  C9. After 1025 calls \<open>addOrder("Buy", "AAPL", 1, 1)\<close> the counter \<open>buyCount\<close> is 1025,
  above \<open>MAX_ORDERS_PER_SIDE\<close>, and the scan loop of \<open>matchOrder\<close> reads \<open>buyOrders[1024]\<close>,
  outside the array.
\<close>

theorem counter_exceeds_capacity:
  "exec (replicate 1025 (AddOrder ''Buy'' ''AAPL'' 1 1)) orderBooks0 = Inr (overfull, [])
   \<and> sint (buyCount (overfull (hashTicker ''AAPL''))) = 1025
   \<and> sint MAX_ORDERS_PER_SIDE = 1024
   \<and> matchOrder ''AAPL'' overfull = Inl OutOfBounds"
proof -
  have "sint (buyCount (overfull (hashTicker ''AAPL''))) = 1025"
    by (simp add: overfull_def)
  then show ?thesis
    by (simp add: exec_overfull matchOrder_overfull MAX_ORDERS_PER_SIDE_def)
qed

section \<open>Validation of orders\<close>

lemma addOrder_free_Buy:
  assumes "0 \<le>s buyCount (st (hashTicker t))" "buyCount (st (hashTicker t)) <s MAX_ORDERS_PER_SIDE"
  shows "addOrder ''Buy'' t q p st =
     Inr (st(hashTicker t := (st (hashTicker t))
       \<lparr>buyCount := buyCount (st (hashTicker t)) + 1,
        buyOrders := (buyOrders (st (hashTicker t)))(nat (sint (buyCount (st (hashTicker t)))) :=
          \<lparr>active = True, isBuy = True, quantity = q, price = p\<rparr>)\<rparr>))"
  using assms
  by (simp add: addOrder_Buy[OF strcmp_Buy_Sell(1)] Let_def word_sle_eq word_sless_alt)

lemma addOrder_free_Sell:
  assumes "0 \<le>s sellCount (st (hashTicker t))" "sellCount (st (hashTicker t)) <s MAX_ORDERS_PER_SIDE"
  shows "addOrder ''Sell'' t q p st =
     Inr (st(hashTicker t := (st (hashTicker t))
       \<lparr>sellCount := sellCount (st (hashTicker t)) + 1,
        sellOrders := (sellOrders (st (hashTicker t)))(nat (sint (sellCount (st (hashTicker t)))) :=
          \<lparr>active = True, isBuy = False, quantity = q, price = p\<rparr>)\<rparr>))"
  using assms
  by (simp add: addOrder_Sell[OF strcmp_Buy_Sell(2)] Let_def word_sle_eq word_sless_alt)

lemma bestBuy_selected:
  assumes "bestBuy ob = Inr (bp, bi)" "bi \<noteq> -1"
  shows "0 <s quantity (buyOrders ob (nat bi)) \<and> 0 <s price (buyOrders ob (nat bi))"
  using bestBuy_best[OF assms(1)] assms(2) by (simp add: best_buy_def live_def)

lemma bestSell_selected:
  assumes "bestSell ob = Inr (sp, si)" "si \<noteq> -1"
  shows "0 <s quantity (sellOrders ob (nat si))"
  using bestSell_best[OF assms(1)] assms(2) by (simp add: best_sell_def live_def)

lemma addOrder_negative_price:
  "addOrder ''Sell'' ''AAPL'' 10 (- 3) orderBooks0 = Inr negative_price_books"
  by (simp add: negative_price_books_def run_simps)

text \<open>
  C8. \<open>addOrder\<close> does not validate the price or the quantity and returns no error for
  them: on a side with a free slot, an order of any price and any quantity, positive or
  not, is written to the next free slot with its \<open>active\<close> flag set, and the counter is
  incremented. The scans of \<open>matchOrder\<close> never select an order whose quantity is not
  positive, nor a buy order whose price is not positive.
\<close>

theorem addOrder_stores_any_order:
  "(0 \<le>s buyCount (st (hashTicker t)) \<and> buyCount (st (hashTicker t)) <s MAX_ORDERS_PER_SIDE \<longrightarrow>
      (\<exists>st'. addOrder ''Buy'' t q p st = Inr st'
         \<and> buyOrders (st' (hashTicker t)) (nat (sint (buyCount (st (hashTicker t))))) =
             \<lparr>active = True, isBuy = True, quantity = q, price = p\<rparr>
         \<and> buyCount (st' (hashTicker t)) = buyCount (st (hashTicker t)) + 1))
   \<and> (0 \<le>s sellCount (st (hashTicker t)) \<and> sellCount (st (hashTicker t)) <s MAX_ORDERS_PER_SIDE \<longrightarrow>
      (\<exists>st'. addOrder ''Sell'' t q p st = Inr st'
         \<and> sellOrders (st' (hashTicker t)) (nat (sint (sellCount (st (hashTicker t))))) =
             \<lparr>active = True, isBuy = False, quantity = q, price = p\<rparr>
         \<and> sellCount (st' (hashTicker t)) = sellCount (st (hashTicker t)) + 1))
   \<and> (bestBuy ob = Inr (bp, bi) \<and> bi \<noteq> -1 \<longrightarrow>
        0 <s quantity (buyOrders ob (nat bi)) \<and> 0 <s price (buyOrders ob (nat bi)))
   \<and> (bestSell ob = Inr (sp, si) \<and> si \<noteq> -1 \<longrightarrow> 0 <s quantity (sellOrders ob (nat si)))"
  using bestBuy_selected[of ob bp bi] bestSell_selected[of ob sp si]
  by (simp add: addOrder_free_Buy addOrder_free_Sell)

theorem addOrder_stores_any_order_witness:
  "0 \<le>s buyCount (orderBooks0 (hashTicker ''AAPL''))
   \<and> buyCount (orderBooks0 (hashTicker ''AAPL'')) <s MAX_ORDERS_PER_SIDE
   \<and> (\<exists>st'. addOrder ''Buy'' ''AAPL'' (- 5) 0 orderBooks0 = Inr st'
         \<and> buyOrders (st' (hashTicker ''AAPL''))
              (nat (sint (buyCount (orderBooks0 (hashTicker ''AAPL''))))) =
             \<lparr>active = True, isBuy = True, quantity = - 5, price = 0\<rparr>
         \<and> buyCount (st' (hashTicker ''AAPL'')) = buyCount (orderBooks0 (hashTicker ''AAPL'')) + 1)
   \<and> 0 \<le>s sellCount (orderBooks0 (hashTicker ''AAPL''))
   \<and> sellCount (orderBooks0 (hashTicker ''AAPL'')) <s MAX_ORDERS_PER_SIDE
   \<and> (\<exists>st'. addOrder ''Sell'' ''AAPL'' (- 5) 0 orderBooks0 = Inr st'
         \<and> sellOrders (st' (hashTicker ''AAPL''))
              (nat (sint (sellCount (orderBooks0 (hashTicker ''AAPL''))))) =
             \<lparr>active = True, isBuy = False, quantity = - 5, price = 0\<rparr>
         \<and> sellCount (st' (hashTicker ''AAPL'')) = sellCount (orderBooks0 (hashTicker ''AAPL'')) + 1)
   \<and> bestBuy (tie_start (hashTicker ''AAPL'')) = Inr (50, 0)
   \<and> 0 <s quantity (buyOrders (tie_start (hashTicker ''AAPL'')) (nat 0))
   \<and> 0 <s price (buyOrders (tie_start (hashTicker ''AAPL'')) (nat 0))
   \<and> bestSell (tie_start (hashTicker ''AAPL'')) = Inr (50, 0)
   \<and> 0 <s quantity (sellOrders (tie_start (hashTicker ''AAPL'')) (nat 0))"
proof -
  have free: "0 \<le>s buyCount (orderBooks0 (hashTicker ''AAPL''))"
    "buyCount (orderBooks0 (hashTicker ''AAPL'')) <s MAX_ORDERS_PER_SIDE"
    "0 \<le>s sellCount (orderBooks0 (hashTicker ''AAPL''))"
    "sellCount (orderBooks0 (hashTicker ''AAPL'')) <s MAX_ORDERS_PER_SIDE"
    by (simp_all add: orderBooks0_def OrderBook0_def MAX_ORDERS_PER_SIDE_def
          word_sle_eq word_sless_alt)
  have "(0 :: int) \<noteq> - 1" by simp
  with addOrder_stores_any_order[of orderBooks0 "''AAPL''" "- 5" 0
          "tie_start (hashTicker ''AAPL'')" 50 0 50 0] free bestBuy_tie bestSell_tie
  show ?thesis
    by blast
qed

text \<open>
  A sell order of price -3 is not rejected: \<open>addOrder\<close> returns normally, the books have
  changed, and the order rests in the book as a live order.
\<close>

theorem addOrder_invalid_order_counterexample:
  "addOrder ''Sell'' ''AAPL'' 10 (- 3) orderBooks0 = Inr negative_price_books
   \<and> negative_price_books \<noteq> orderBooks0
   \<and> price (sellOrders (negative_price_books (hashTicker ''AAPL'')) 0) = - 3
   \<and> live (sellOrders (negative_price_books (hashTicker ''AAPL'')) 0)"
proof -
  have "sellCount (negative_price_books (hashTicker ''AAPL'')) = 1"
    "sellCount (orderBooks0 (hashTicker ''AAPL'')) = 0"
    by (simp_all add: negative_price_books_def orderBooks0_def OrderBook0_def)
  then have "negative_price_books \<noteq> orderBooks0" by auto
  then show ?thesis
    by (simp add: addOrder_negative_price)
       (simp add: negative_price_books_def live_def word_sless_alt)
qed

section \<open>When a match executes\<close>

lemma signed_le_trans: "a \<le>s b \<Longrightarrow> b \<le>s c \<Longrightarrow> a \<le>s (c :: cint)"
  by (simp add: word_sle_eq)

lemma crossed_in_window_crossed: "crossed_in_window ob \<Longrightarrow> crossed ob"
  by (auto simp: crossed_in_window_def crossed_def)

lemma matchOrder_Some_crossed:
  assumes "matchOrder t st = Inr (st', Some m)"
  shows "crossed_in_window (st (hashTicker t))"
proof -
  from matchOrder_Some[OF assms] obtain b s where
    "b < occupied (buyCount (st (hashTicker t)))" "s < occupied (sellCount (st (hashTicker t)))"
    "live (buyOrders (st (hashTicker t)) b)" "live (sellOrders (st (hashTicker t)) s)"
    "price (buyOrders (st (hashTicker t)) b) = buyPrice m"
    "price (sellOrders (st (hashTicker t)) s) = sellPrice m"
    "sellPrice m \<le>s buyPrice m" "0 <s buyPrice m" "sellPrice m <s 1000000"
    by (auto simp: Let_def)
  then show ?thesis
    unfolding crossed_in_window_def
    by (intro exI[of _ b] conjI exI[of _ s]) simp_all
qed

lemma matchOrder_crossed_Some:
  assumes "matchOrder t st = Inr (st', out)" "crossed_in_window (st (hashTicker t))"
  shows "out \<noteq> None"
proof -
  let ?ob = "st (hashTicker t)"
  from assms(2) obtain i j where
    i: "i < occupied (buyCount ?ob)" "live (buyOrders ?ob i)" "0 <s price (buyOrders ?ob i)"
    and j: "j < occupied (sellCount ?ob)" "live (sellOrders ?ob j)"
      "price (sellOrders ?ob j) <s 1000000"
    and x: "price (sellOrders ?ob j) \<le>s price (buyOrders ?ob i)"
    unfolding crossed_in_window_def by blast
  from matchOrder_Inr[OF assms(1)] obtain bp bi sp si where
    b: "bestBuy ?ob = Inr (bp, bi)" and s: "bestSell ?ob = Inr (sp, si)"
    and r: "if bi \<noteq> -1 \<and> si \<noteq> -1 \<and> sp \<le>s bp then out \<noteq> None else out = None"
    by (auto split: if_splits)
  from bestBuy_best[OF b] i have bi: "bi \<noteq> -1" "price (buyOrders ?ob i) \<le>s bp"
    by (auto simp: best_buy_def split: if_splits)
  from bestSell_best[OF s] j have si: "si \<noteq> -1" "sp \<le>s price (sellOrders ?ob j)"
    by (auto simp: best_sell_def split: if_splits)
  from si(2) x bi(2) have "sp \<le>s bp"
    by (blast intro: signed_le_trans)
  with r bi(1) si(1) show ?thesis by simp
qed

lemma matchOrder_None_same:
  assumes "matchOrder t st = Inr (st', None)"
  shows "st' = st"
  using matchOrder_Inr[OF assms] by (auto split: if_splits)

lemma matchOrder_not_crossed:
  assumes "matchOrder t st = Inr (st', out)" "\<not> crossed (st (hashTicker t))"
  shows "out = None \<and> st' = st"
proof (cases out)
  case None
  with assms(1) matchOrder_None_same[of t st st'] show ?thesis by simp
next
  case (Some m)
  with assms(1) have "crossed_in_window (st (hashTicker t))"
    by (simp add: matchOrder_Some_crossed)
  with assms(2) show ?thesis by (simp add: crossed_in_window_crossed)
qed

lemma matchOrder_returns:
  assumes "sint (buyCount (st (hashTicker t))) \<le> 1024" "sint (sellCount (st (hashTicker t))) \<le> 1024"
  shows "\<exists>st' out. matchOrder t st = Inr (st', out)"
proof (cases "matchOrder t st")
  case (Inl e)
  with matchOrder_Inl[of t st] assms show ?thesis by auto
next
  case (Inr r)
  then show ?thesis by (cases r) simp
qed

lemma uncrossed_not_crossed: "\<not> crossed (uncrossed_books (hashTicker ''AAPL''))"
proof -
  have "occupied (1 :: cint) = 1"
    by (simp add: occupied_def MAX_ORDERS_PER_SIDE_def)
  then show ?thesis
    by (simp add: crossed_def uncrossed_books_def word_sle_eq)
qed

lemma crossedI:
  assumes "i < occupied (buyCount ob)" "j < occupied (sellCount ob)"
    "live (buyOrders ob i)" "live (sellOrders ob j)"
    "price (sellOrders ob j) \<le>s price (buyOrders ob i)"
  shows "crossed ob"
  unfolding crossed_def using assms by blast

lemma two_sells_still_crossed: "crossed (two_sells_books (hashTicker ''AAPL''))"
proof (rule crossedI[of 0 _ 1])
  show "0 < occupied (buyCount (two_sells_books (hashTicker ''AAPL'')))"
    by (simp add: two_sells_books_def occupied_def MAX_ORDERS_PER_SIDE_def)
  show "1 < occupied (sellCount (two_sells_books (hashTicker ''AAPL'')))"
    by (simp add: two_sells_books_def occupied_def MAX_ORDERS_PER_SIDE_def)
  show "live (buyOrders (two_sells_books (hashTicker ''AAPL'')) 0)"
    by (simp add: two_sells_books_def live_def word_sless_alt)
  show "live (sellOrders (two_sells_books (hashTicker ''AAPL'')) 1)"
    by (simp add: two_sells_books_def live_def word_sless_alt)
  show "price (sellOrders (two_sells_books (hashTicker ''AAPL'')) 1)
          \<le>s price (buyOrders (two_sells_books (hashTicker ''AAPL'')) 0)"
    by (simp add: two_sells_books_def)
qed

text \<open>
  C6. If \<open>matchOrder\<close> returns, then: with no live buy order or no live sell order in the
  book, and whenever no live buy order has a price at or above the price of a live sell
  order (the best buy price is strictly below the best sell price), no match executes
  and the books are unchanged; and the prices of a reported match satisfy
  \<open>buyPrice \<ge> sellPrice\<close>.
\<close>

theorem no_match_without_cross:
  assumes "matchOrder t st = Inr (st', out)"
  shows "((\<forall>i<occupied (buyCount (st (hashTicker t))). \<not> live (buyOrders (st (hashTicker t)) i))
            \<longrightarrow> out = None \<and> st' = st)
       \<and> ((\<forall>j<occupied (sellCount (st (hashTicker t))). \<not> live (sellOrders (st (hashTicker t)) j))
            \<longrightarrow> out = None \<and> st' = st)
       \<and> (\<not> crossed (st (hashTicker t)) \<longrightarrow> out = None \<and> st' = st)
       \<and> (\<forall>bp bi sp si. bestBuy (st (hashTicker t)) = Inr (bp, bi)
             \<and> bestSell (st (hashTicker t)) = Inr (sp, si) \<and> bp <s sp \<longrightarrow> out = None \<and> st' = st)
       \<and> (\<forall>m. out = Some m \<longrightarrow> sellPrice m \<le>s buyPrice m)"
proof -
  let ?ob = "st (hashTicker t)"
  have a: "\<not> crossed ?ob \<longrightarrow> out = None \<and> st' = st"
    using matchOrder_not_crossed[OF assms] by blast
  have b: "(\<forall>i<occupied (buyCount ?ob). \<not> live (buyOrders ?ob i)) \<longrightarrow> \<not> crossed ?ob"
    by (auto simp: crossed_def)
  have c: "(\<forall>j<occupied (sellCount ?ob). \<not> live (sellOrders ?ob j)) \<longrightarrow> \<not> crossed ?ob"
    by (auto simp: crossed_def)
  have d: "out = None \<and> st' = st"
    if h: "bestBuy ?ob = Inr (bp, bi) \<and> bestSell ?ob = Inr (sp, si) \<and> bp <s sp"
    for bp bi sp si
  proof -
    from matchOrder_Inr[OF assms] obtain bp' bi' sp' si' where
      b: "bestBuy ?ob = Inr (bp', bi')" and s: "bestSell ?ob = Inr (sp', si')"
      and r: "if bi' \<noteq> -1 \<and> si' \<noteq> -1 \<and> sp' \<le>s bp' then out \<noteq> None else st' = st \<and> out = None"
      by (auto split: if_splits)
    from b s h have "bp' = bp" "sp' = sp" by simp_all
    with h have "\<not> sp' \<le>s bp'" by (simp add: word_sle_eq word_sless_alt)
    with r show ?thesis by simp
  qed
  have e: "\<forall>m. out = Some m \<longrightarrow> sellPrice m \<le>s buyPrice m"
    using matchOrder_Some[of t st st'] assms by (auto simp: Let_def)
  from a b have f: "(\<forall>i<occupied (buyCount ?ob). \<not> live (buyOrders ?ob i)) \<longrightarrow> out = None \<and> st' = st"
    by blast
  from a c have g: "(\<forall>j<occupied (sellCount ?ob). \<not> live (sellOrders ?ob j)) \<longrightarrow> out = None \<and> st' = st"
    by blast
  from d have d': "\<forall>bp bi sp si. bestBuy ?ob = Inr (bp, bi) \<and> bestSell ?ob = Inr (sp, si) \<and> bp <s sp
             \<longrightarrow> out = None \<and> st' = st"
    by blast
  show ?thesis
    by (intro conjI) (rule f, rule g, rule a, rule d', rule e)
qed

theorem no_match_without_cross_witness:
  "exec [AddOrder ''Buy'' ''AAPL'' 10 40, AddOrder ''Sell'' ''AAPL'' 10 50] orderBooks0
     = Inr (uncrossed_books, [])
   \<and> matchOrder ''AAPL'' orderBooks0 = Inr (orderBooks0, None)
   \<and> occupied (buyCount (orderBooks0 (hashTicker ''AAPL''))) = 0
   \<and> occupied (sellCount (orderBooks0 (hashTicker ''AAPL''))) = 0
   \<and> matchOrder ''AAPL'' uncrossed_books = Inr (uncrossed_books, None)
   \<and> \<not> crossed (uncrossed_books (hashTicker ''AAPL''))
   \<and> matchOrder ''AAPL'' partial_fill_start = Inr (partial_fill_books, Some partial_fill_line)
   \<and> sellPrice partial_fill_line \<le>s buyPrice partial_fill_line"
proof -
  have "occupied (buyCount (orderBooks0 (hashTicker ''AAPL''))) = 0"
    "occupied (sellCount (orderBooks0 (hashTicker ''AAPL''))) = 0"
    by (simp_all add: occupied_def orderBooks0_def OrderBook0_def)
  with no_match_without_cross[OF match_empty] no_match_without_cross[OF match_uncrossed]
    no_match_without_cross[OF match_partial_fill]
  have "matchOrder ''AAPL'' orderBooks0 = Inr (orderBooks0, None)
   \<and> occupied (buyCount (orderBooks0 (hashTicker ''AAPL''))) = 0
   \<and> occupied (sellCount (orderBooks0 (hashTicker ''AAPL''))) = 0
   \<and> matchOrder ''AAPL'' uncrossed_books = Inr (uncrossed_books, None)
   \<and> \<not> crossed (uncrossed_books (hashTicker ''AAPL''))
   \<and> matchOrder ''AAPL'' partial_fill_start = Inr (partial_fill_books, Some partial_fill_line)
   \<and> sellPrice partial_fill_line \<le>s buyPrice partial_fill_line"
    by (simp add: match_empty match_uncrossed match_partial_fill uncrossed_not_crossed)
  with exec_uncrossed show ?thesis by (rule conjI)
qed

section \<open>One match for each call\<close>

text \<open>
  C7. A single invocation of \<open>matchOrder\<close> performs the find-best-pair-and-fill step
  once if the book holds a live buy order of a price above 0 and a live sell order of
  a price below 1000000 that cross, and not at all otherwise (the books are then
  unchanged); it reports at most one match and does not repeat the step. It returns
  whenever neither counter of the book exceeds \<open>MAX_ORDERS_PER_SIDE\<close>.
\<close>

theorem matchOrder_single_step:
  "(sint (buyCount (st (hashTicker t))) \<le> 1024 \<and> sint (sellCount (st (hashTicker t))) \<le> 1024
      \<longrightarrow> (\<exists>st' out. matchOrder t st = Inr (st', out)))
   \<and> (matchOrder t st = Inr (st', out) \<longrightarrow>
        (out \<noteq> None \<longleftrightarrow> crossed_in_window (st (hashTicker t)))
        \<and> (out = None \<longrightarrow> st' = st)
        \<and> (\<forall>m. out = Some m \<longrightarrow>
              (\<exists>b s. bestBuy (st (hashTicker t)) = Inr (buyPrice m, int b)
                    \<and> bestSell (st (hashTicker t)) = Inr (sellPrice m, int s)
                    \<and> st' = st(hashTicker t := fst (matchOrder_fill (st (hashTicker t)) b s)))))"
proof -
  have r: "sint (buyCount (st (hashTicker t))) \<le> 1024 \<and> sint (sellCount (st (hashTicker t))) \<le> 1024
      \<longrightarrow> (\<exists>st' out. matchOrder t st = Inr (st', out))"
    using matchOrder_returns[of st t] by blast
  have s: "(out \<noteq> None \<longleftrightarrow> crossed_in_window (st (hashTicker t)))
        \<and> (out = None \<longrightarrow> st' = st)
        \<and> (\<forall>m. out = Some m \<longrightarrow>
              (\<exists>b s. bestBuy (st (hashTicker t)) = Inr (buyPrice m, int b)
                    \<and> bestSell (st (hashTicker t)) = Inr (sellPrice m, int s)
                    \<and> st' = st(hashTicker t := fst (matchOrder_fill (st (hashTicker t)) b s))))"
    if m: "matchOrder t st = Inr (st', out)"
  proof (intro conjI)
    show "out \<noteq> None \<longleftrightarrow> crossed_in_window (st (hashTicker t))"
      using matchOrder_crossed_Some[OF m] matchOrder_Some_crossed[of t st st'] m by auto
    show "out = None \<longrightarrow> st' = st"
      using matchOrder_None_same[of t st st'] m by simp
    show "\<forall>m. out = Some m \<longrightarrow>
              (\<exists>b s. bestBuy (st (hashTicker t)) = Inr (buyPrice m, int b)
                    \<and> bestSell (st (hashTicker t)) = Inr (sellPrice m, int s)
                    \<and> st' = st(hashTicker t := fst (matchOrder_fill (st (hashTicker t)) b s)))"
    proof (intro allI impI)
      fix x assume "out = Some x"
      with m have "matchOrder t st = Inr (st', Some x)" by simp
      from matchOrder_Some[OF this] obtain b s where
        "bestBuy (st (hashTicker t)) = Inr (buyPrice x, int b)"
        "bestSell (st (hashTicker t)) = Inr (sellPrice x, int s)"
        "st' = st(hashTicker t := fst (matchOrder_fill (st (hashTicker t)) b s))"
        by (auto simp: Let_def)
      then show "\<exists>b s. bestBuy (st (hashTicker t)) = Inr (buyPrice x, int b)
                    \<and> bestSell (st (hashTicker t)) = Inr (sellPrice x, int s)
                    \<and> st' = st(hashTicker t := fst (matchOrder_fill (st (hashTicker t)) b s))"
        by blast
    qed
  qed
  from r s show ?thesis by blast
qed

theorem matchOrder_single_step_witness:
  "sint (buyCount (two_sells_start (hashTicker ''AAPL''))) \<le> 1024
   \<and> sint (sellCount (two_sells_start (hashTicker ''AAPL''))) \<le> 1024
   \<and> matchOrder ''AAPL'' two_sells_start = Inr (two_sells_books, Some two_sells_line)
   \<and> crossed_in_window (two_sells_start (hashTicker ''AAPL''))
   \<and> (\<exists>b s. bestBuy (two_sells_start (hashTicker ''AAPL'')) = Inr (buyPrice two_sells_line, int b)
         \<and> bestSell (two_sells_start (hashTicker ''AAPL'')) = Inr (sellPrice two_sells_line, int s)
         \<and> two_sells_books = two_sells_start(hashTicker ''AAPL'' :=
               fst (matchOrder_fill (two_sells_start (hashTicker ''AAPL'')) b s)))"
proof -
  have c: "sint (buyCount (two_sells_start (hashTicker ''AAPL''))) \<le> 1024"
    "sint (sellCount (two_sells_start (hashTicker ''AAPL''))) \<le> 1024"
    by (simp_all add: two_sells_start_def)
  from matchOrder_single_step[of two_sells_start "''AAPL''" two_sells_books "Some two_sells_line"]
    match_two_sells c
  show ?thesis by simp
qed

text \<open>
  With a buy of 100 at 50 and two sells of 50 at 40 in the book, one invocation fills 50
  against the first sell and returns; the buy order, with 50 remaining at 50, still
  crosses the second sell at 40.
\<close>

theorem matchOrder_drains_counterexample:
  "exec [AddOrder ''Buy'' ''AAPL'' 100 50, AddOrder ''Sell'' ''AAPL'' 50 40,
         AddOrder ''Sell'' ''AAPL'' 50 40] orderBooks0 = Inr (two_sells_start, [])
   \<and> matchOrder ''AAPL'' two_sells_start = Inr (two_sells_books, Some two_sells_line)
   \<and> crossed (two_sells_books (hashTicker ''AAPL''))"
  using exec_two_sells_start match_two_sells two_sells_still_crossed
  by (intro conjI)

section \<open>The fill\<close>

lemma matchOrder_fill_effect:
  assumes "matchOrder t st = Inr (st', Some m)"
  shows "\<exists>b s. let ob = st (hashTicker t); ob' = st' (hashTicker t);
                  bq = quantity (buyOrders ob b); sq = quantity (sellOrders ob s) in
     bestBuy ob = Inr (buyPrice m, int b) \<and> bestSell ob = Inr (sellPrice m, int s)
     \<and> sint (matchedQuantity m) = min (sint bq) (sint sq)
     \<and> quantity (buyOrders ob' b) = bq - matchedQuantity m
     \<and> sint (quantity (buyOrders ob' b)) = sint bq - sint (matchedQuantity m)
     \<and> quantity (sellOrders ob' s) = sq - matchedQuantity m
     \<and> sint (quantity (sellOrders ob' s)) = sint sq - sint (matchedQuantity m)
     \<and> active (buyOrders ob' b) = (quantity (buyOrders ob' b) \<noteq> 0)
     \<and> active (sellOrders ob' s) = (quantity (sellOrders ob' s) \<noteq> 0)
     \<and> (\<forall>i. i \<noteq> b \<longrightarrow> buyOrders ob' i = buyOrders ob i)
     \<and> (\<forall>j. j \<noteq> s \<longrightarrow> sellOrders ob' j = sellOrders ob j)"
proof -
  let ?ob = "st (hashTicker t)"
  from matchOrder_Some[OF assms] obtain b s where
    bb: "bestBuy ?ob = Inr (buyPrice m, int b)" and bs: "bestSell ?ob = Inr (sellPrice m, int s)"
    and lb: "live (buyOrders ?ob b)" and ls: "live (sellOrders ?ob s)"
    and mq: "matchedQuantity m = std_min (quantity (buyOrders ?ob b)) (quantity (sellOrders ?ob s))"
    and st': "st' = st(hashTicker t := fst (matchOrder_fill ?ob b s))"
    by (auto simp: Let_def)
  from lb ls have pos: "0 <s quantity (buyOrders ?ob b)" "0 <s quantity (sellOrders ?ob s)"
    and act: "active (buyOrders ?ob b)" "active (sellOrders ?ob s)"
    by (simp_all add: live_def)
  have ob': "st' (hashTicker t) = fst (matchOrder_fill ?ob b s)"
    by (simp add: st')
  have snd: "snd (matchOrder_fill ?ob b s) = matchedQuantity m"
    by (simp add: matchOrder_fill_snd mq)
  have bo: "buyOrders (st' (hashTicker t)) = (buyOrders ?ob)(b := (buyOrders ?ob b)
        \<lparr>active := quantity (buyOrders ?ob b) - matchedQuantity m \<noteq> 0,
         quantity := quantity (buyOrders ?ob b) - matchedQuantity m\<rparr>)"
    by (simp add: ob' matchOrder_fill_buyOrders snd act)
  have so: "sellOrders (st' (hashTicker t)) = (sellOrders ?ob)(s := (sellOrders ?ob s)
        \<lparr>active := quantity (sellOrders ?ob s) - matchedQuantity m \<noteq> 0,
         quantity := quantity (sellOrders ?ob s) - matchedQuantity m\<rparr>)"
    by (simp add: ob' matchOrder_fill_sellOrders snd act)
  have sub: "sint (quantity (buyOrders ?ob b) - matchedQuantity m) =
               sint (quantity (buyOrders ?ob b)) - sint (matchedQuantity m)"
    "sint (quantity (sellOrders ?ob s) - matchedQuantity m) =
               sint (quantity (sellOrders ?ob s)) - sint (matchedQuantity m)"
    using sint_sub_std_min[OF pos] by (simp_all add: mq)
  have mn: "sint (matchedQuantity m) =
              min (sint (quantity (buyOrders ?ob b))) (sint (quantity (sellOrders ?ob s)))"
    by (simp add: mq sint_std_min)
  show ?thesis
    apply (rule exI[of _ b], rule exI[of _ s])
    using bb bs mn sub by (simp add: Let_def bo so)
qed

lemma partial_fill_facts:
  "matchedQuantity partial_fill_line = 100"
  "quantity (buyOrders (partial_fill_books (hashTicker ''AAPL'')) 0) = 200"
  "live (buyOrders (partial_fill_books (hashTicker ''AAPL'')) 0)"
  "\<not> active (sellOrders (partial_fill_books (hashTicker ''AAPL'')) 0)"
  "\<not> live (sellOrders (partial_fill_books (hashTicker ''AAPL'')) 0)"
  by (simp_all add: partial_fill_line_def partial_fill_books_def live_def word_sless_alt)

lemma exec_partial_fill:
  "exec [AddOrder ''Buy'' ''AAPL'' 300 60, AddOrder ''Sell'' ''AAPL'' 100 55, MatchOrder ''AAPL'']
        orderBooks0 = Inr (partial_fill_books, [partial_fill_line])"
proof -
  have "[AddOrder ''Buy'' ''AAPL'' 300 60, AddOrder ''Sell'' ''AAPL'' 100 55, MatchOrder ''AAPL'']
        = [AddOrder ''Buy'' ''AAPL'' 300 60, AddOrder ''Sell'' ''AAPL'' 100 55] @ [MatchOrder ''AAPL'']"
    by simp
  then show ?thesis
    by (simp only: exec_append exec_partial_fill_start) (simp add: match_partial_fill)
qed

text \<open>
  C4. Whenever \<open>matchOrder\<close> reports a match, it is between the orders that the two scans
  selected; the matched quantity is the minimum of their two remaining quantities; both
  remaining quantities are decremented by exactly that amount; each of the two orders
  is active afterwards exactly if its remaining quantity is not zero; and no other order
  changes. In particular a buy of 300 at 60 against a sell of 100 at 55 gives one match
  of quantity 100, leaves the buy order live with 200 remaining, and makes the sell order
  not live.
\<close>

theorem matchOrder_fills_minimum:
  "(matchOrder t st = Inr (st', Some m) \<longrightarrow>
     (\<exists>b s. let ob = st (hashTicker t); ob' = st' (hashTicker t);
                 bq = quantity (buyOrders ob b); sq = quantity (sellOrders ob s) in
        bestBuy ob = Inr (buyPrice m, int b) \<and> bestSell ob = Inr (sellPrice m, int s)
        \<and> sint (matchedQuantity m) = min (sint bq) (sint sq)
        \<and> quantity (buyOrders ob' b) = bq - matchedQuantity m
        \<and> sint (quantity (buyOrders ob' b)) = sint bq - sint (matchedQuantity m)
        \<and> quantity (sellOrders ob' s) = sq - matchedQuantity m
        \<and> sint (quantity (sellOrders ob' s)) = sint sq - sint (matchedQuantity m)
        \<and> active (buyOrders ob' b) = (quantity (buyOrders ob' b) \<noteq> 0)
        \<and> active (sellOrders ob' s) = (quantity (sellOrders ob' s) \<noteq> 0)
        \<and> (\<forall>i. i \<noteq> b \<longrightarrow> buyOrders ob' i = buyOrders ob i)
        \<and> (\<forall>j. j \<noteq> s \<longrightarrow> sellOrders ob' j = sellOrders ob j)))
   \<and> exec [AddOrder ''Buy'' ''AAPL'' 300 60, AddOrder ''Sell'' ''AAPL'' 100 55,
            MatchOrder ''AAPL''] orderBooks0 = Inr (partial_fill_books, [partial_fill_line])
   \<and> matchedQuantity partial_fill_line = 100
   \<and> quantity (buyOrders (partial_fill_books (hashTicker ''AAPL'')) 0) = 200
   \<and> live (buyOrders (partial_fill_books (hashTicker ''AAPL'')) 0)
   \<and> \<not> active (sellOrders (partial_fill_books (hashTicker ''AAPL'')) 0)"
  using matchOrder_fill_effect[of t st st' m] exec_partial_fill partial_fill_facts(1-4)
  by (intro conjI impI)

theorem matchOrder_fills_minimum_witness:
  "matchOrder ''AAPL'' partial_fill_start = Inr (partial_fill_books, Some partial_fill_line)
   \<and> (\<exists>b s. let ob = partial_fill_start (hashTicker ''AAPL'');
                 ob' = partial_fill_books (hashTicker ''AAPL'');
                 bq = quantity (buyOrders ob b); sq = quantity (sellOrders ob s) in
        bestBuy ob = Inr (buyPrice partial_fill_line, int b)
        \<and> bestSell ob = Inr (sellPrice partial_fill_line, int s)
        \<and> sint (matchedQuantity partial_fill_line) = min (sint bq) (sint sq)
        \<and> quantity (buyOrders ob' b) = bq - matchedQuantity partial_fill_line
        \<and> sint (quantity (buyOrders ob' b)) = sint bq - sint (matchedQuantity partial_fill_line)
        \<and> quantity (sellOrders ob' s) = sq - matchedQuantity partial_fill_line
        \<and> sint (quantity (sellOrders ob' s)) = sint sq - sint (matchedQuantity partial_fill_line)
        \<and> active (buyOrders ob' b) = (quantity (buyOrders ob' b) \<noteq> 0)
        \<and> active (sellOrders ob' s) = (quantity (sellOrders ob' s) \<noteq> 0)
        \<and> (\<forall>i. i \<noteq> b \<longrightarrow> buyOrders ob' i = buyOrders ob i)
        \<and> (\<forall>j. j \<noteq> s \<longrightarrow> sellOrders ob' j = sellOrders ob j))"
  using matchOrder_fills_minimum[of "''AAPL''" partial_fill_start partial_fill_books
          partial_fill_line] match_partial_fill
  by blast

section \<open>Price-then-time priority\<close>

lemma bestBuy_returns: "sint (buyCount ob) \<le> 1024 \<Longrightarrow> \<exists>r. bestBuy ob = Inr r"
  unfolding bestBuy_def by (rule scanBuy_ok)

lemma bestSell_returns: "sint (sellCount ob) \<le> 1024 \<Longrightarrow> \<exists>r. bestSell ob = Inr r"
  unfolding bestSell_def by (rule scanSell_ok)

lemma matchOrder_consumes_selected:
  assumes "matchOrder t st = Inr (st', Some m)"
  shows "\<exists>b s. bestBuy (st (hashTicker t)) = Inr (buyPrice m, int b)
            \<and> bestSell (st (hashTicker t)) = Inr (sellPrice m, int s)
            \<and> st' = st(hashTicker t := fst (matchOrder_fill (st (hashTicker t)) b s))"
proof -
  from matchOrder_Some[OF assms] obtain b s where
    "bestBuy (st (hashTicker t)) = Inr (buyPrice m, int b)"
    "bestSell (st (hashTicker t)) = Inr (sellPrice m, int s)"
    "st' = st(hashTicker t := fst (matchOrder_fill (st (hashTicker t)) b s))"
    by (auto simp: Let_def)
  then show ?thesis by blast
qed

lemma tie_books_quantities:
  "quantity (buyOrders (tie_books (hashTicker ''AAPL'')) 0) = 5"
  "quantity (buyOrders (tie_books (hashTicker ''AAPL'')) 1) = 10"
  by (simp_all add: tie_books_def)

text \<open>
  C5. The scan of the buy side returns, among the live buy orders (flag set, positive
  remaining quantity) of a price above 0, the one of the highest price, and the scan of
  the sell side, among the live sell orders of a price below 1000000, the one of the
  lowest price; when several live orders of a side share the best price, the one of
  the lowest slot is selected. A scan selects none (index -1) when the side has no live
  order in that price range. The slot of an order is its insertion sequence number:
  \<open>addOrder\<close> writes the slot numbered by the counter of the side and increments the
  counter. A match consumes from the two selected orders.
\<close>

theorem best_price_then_time:
  "(sint (buyCount ob) \<le> 1024 \<longrightarrow> (\<exists>r. bestBuy ob = Inr r))
   \<and> (sint (sellCount ob) \<le> 1024 \<longrightarrow> (\<exists>r. bestSell ob = Inr r))
   \<and> (bestBuy ob = Inr rb \<longrightarrow> best_buy (buyOrders ob) (occupied (buyCount ob)) rb)
   \<and> (bestSell ob = Inr rs \<longrightarrow> best_sell (sellOrders ob) (occupied (sellCount ob)) rs)
   \<and> (0 \<le>s buyCount (st (hashTicker t)) \<and> buyCount (st (hashTicker t)) <s MAX_ORDERS_PER_SIDE \<longrightarrow>
        addOrder ''Buy'' t q p st =
          Inr (st(hashTicker t := (st (hashTicker t))
            \<lparr>buyCount := buyCount (st (hashTicker t)) + 1,
             buyOrders := (buyOrders (st (hashTicker t)))
               (nat (sint (buyCount (st (hashTicker t)))) :=
                  \<lparr>active = True, isBuy = True, quantity = q, price = p\<rparr>)\<rparr>)))
   \<and> (0 \<le>s sellCount (st (hashTicker t)) \<and> sellCount (st (hashTicker t)) <s MAX_ORDERS_PER_SIDE \<longrightarrow>
        addOrder ''Sell'' t q p st =
          Inr (st(hashTicker t := (st (hashTicker t))
            \<lparr>sellCount := sellCount (st (hashTicker t)) + 1,
             sellOrders := (sellOrders (st (hashTicker t)))
               (nat (sint (sellCount (st (hashTicker t)))) :=
                  \<lparr>active = True, isBuy = False, quantity = q, price = p\<rparr>)\<rparr>)))
   \<and> (matchOrder t st = Inr (st', Some m) \<longrightarrow>
        (\<exists>b s. bestBuy (st (hashTicker t)) = Inr (buyPrice m, int b)
            \<and> bestSell (st (hashTicker t)) = Inr (sellPrice m, int s)
            \<and> st' = st(hashTicker t := fst (matchOrder_fill (st (hashTicker t)) b s))))"
  using bestBuy_returns[of ob] bestSell_returns[of ob] bestBuy_best[of ob rb]
    bestSell_best[of ob rs] addOrder_free_Buy[of st t q p] addOrder_free_Sell[of st t q p]
    matchOrder_consumes_selected[of t st st' m]
  by (intro conjI impI) simp_all

theorem best_price_then_time_witness:
  "exec [AddOrder ''Buy'' ''AAPL'' 10 50, AddOrder ''Buy'' ''AAPL'' 10 50,
         AddOrder ''Sell'' ''AAPL'' 5 50] orderBooks0 = Inr (tie_start, [])
   \<and> sint (buyCount (tie_start (hashTicker ''AAPL''))) \<le> 1024
   \<and> sint (sellCount (tie_start (hashTicker ''AAPL''))) \<le> 1024
   \<and> bestBuy (tie_start (hashTicker ''AAPL'')) = Inr (50, 0)
   \<and> best_buy (buyOrders (tie_start (hashTicker ''AAPL'')))
        (occupied (buyCount (tie_start (hashTicker ''AAPL'')))) (50, 0)
   \<and> bestSell (tie_start (hashTicker ''AAPL'')) = Inr (50, 0)
   \<and> best_sell (sellOrders (tie_start (hashTicker ''AAPL'')))
        (occupied (sellCount (tie_start (hashTicker ''AAPL'')))) (50, 0)
   \<and> 0 \<le>s buyCount (tie_start (hashTicker ''AAPL''))
   \<and> buyCount (tie_start (hashTicker ''AAPL'')) <s MAX_ORDERS_PER_SIDE
   \<and> addOrder ''Buy'' ''AAPL'' 7 50 tie_start =
        Inr (tie_start(hashTicker ''AAPL'' := (tie_start (hashTicker ''AAPL''))
            \<lparr>buyCount := buyCount (tie_start (hashTicker ''AAPL'')) + 1,
             buyOrders := (buyOrders (tie_start (hashTicker ''AAPL'')))
               (nat (sint (buyCount (tie_start (hashTicker ''AAPL'')))) :=
                  \<lparr>active = True, isBuy = True, quantity = 7, price = 50\<rparr>)\<rparr>))
   \<and> nat (sint (buyCount (tie_start (hashTicker ''AAPL'')))) = 2
   \<and> matchOrder ''AAPL'' tie_start = Inr (tie_books, Some tie_line)
   \<and> quantity (buyOrders (tie_books (hashTicker ''AAPL'')) 0) = 5
   \<and> quantity (buyOrders (tie_books (hashTicker ''AAPL'')) 1) = 10"
proof -
  note inst = best_price_then_time[of "tie_start (hashTicker ''AAPL'')" "(50, 0)" "(50, 0)"
      tie_start "''AAPL''" 7 50 tie_books tie_line]
  from inst bestBuy_tie
  have b: "best_buy (buyOrders (tie_start (hashTicker ''AAPL'')))
        (occupied (buyCount (tie_start (hashTicker ''AAPL'')))) (50, 0)"
    by blast
  from inst bestSell_tie
  have s: "best_sell (sellOrders (tie_start (hashTicker ''AAPL'')))
        (occupied (sellCount (tie_start (hashTicker ''AAPL'')))) (50, 0)"
    by blast
  from inst tie_counts(3,4)
  have a: "addOrder ''Buy'' ''AAPL'' 7 50 tie_start =
        Inr (tie_start(hashTicker ''AAPL'' := (tie_start (hashTicker ''AAPL''))
            \<lparr>buyCount := buyCount (tie_start (hashTicker ''AAPL'')) + 1,
             buyOrders := (buyOrders (tie_start (hashTicker ''AAPL'')))
               (nat (sint (buyCount (tie_start (hashTicker ''AAPL'')))) :=
                  \<lparr>active = True, isBuy = True, quantity = 7, price = 50\<rparr>)\<rparr>))"
    by blast
  have n: "nat (sint (buyCount (tie_start (hashTicker ''AAPL'')))) = 2"
    by (simp add: tie_start_def)
  show ?thesis
    using exec_tie_start tie_counts bestBuy_tie b bestSell_tie s a n match_tie
      tie_books_quantities
    by (intro conjI)
qed

text \<open>
  A live buy order of price 0 and a live sell order of price 1000000 are the only orders
  of their sides, and neither scan selects them.
\<close>

theorem best_price_counterexample:
  "exec [AddOrder ''Buy'' ''AAPL'' 10 0, AddOrder ''Sell'' ''AAPL'' 10 1000000] orderBooks0
     = Inr (unseen_books, [])
   \<and> live (buyOrders (unseen_books (hashTicker ''AAPL'')) 0)
   \<and> bestBuy (unseen_books (hashTicker ''AAPL'')) = Inr (0, -1)
   \<and> live (sellOrders (unseen_books (hashTicker ''AAPL'')) 0)
   \<and> bestSell (unseen_books (hashTicker ''AAPL'')) = Inr (1000000, -1)"
  using exec_unseen best_unseen by (intro conjI)

section \<open>Two threads in matchOrder\<close>

lemma exec_race_start:
  "exec [AddOrder ''Buy'' ''AAPL'' 100 50, AddOrder ''Sell'' ''AAPL'' 100 50] orderBooks0
     = Inr (race_start, [])"
  by (simp add: race_start_def run_simps)

lemma alternating_eq:
  "alternating = [True, False, True, False, True, False, True, False,
                  True, False, True, False, True, False, True, False]"
  by (simp add: alternating_def eval_nat_numeral)

lemma two_threads_race:
  "two_threads alternating ''AAPL'' (AtScan, AtScan) race_start
     = Inr (race_end, (Returned, Returned), [full_fill_line, full_fill_line])"
  by (simp add: alternating_eq race_start_def race_end_def full_fill_line_def run_simps)

lemma in_turn_eq:
  "replicate 8 True @ replicate 8 False =
     [True, True, True, True, True, True, True, True,
      False, False, False, False, False, False, False, False]"
  by (simp add: eval_nat_numeral)

lemma two_threads_in_turn:
  "two_threads (replicate 8 True @ replicate 8 False) ''AAPL'' (AtScan, AtScan) race_start
     = Inr (full_fill_books, (Returned, Returned), [full_fill_line])"
  by (simp add: in_turn_eq race_start_def full_fill_books_def full_fill_line_def run_simps)

lemma eight: "(8 :: nat) = Suc (Suc (Suc (Suc (Suc (Suc (Suc (Suc 0)))))))"
  by simp

text \<open>A thread that runs alone through its eight steps does what \<open>matchOrder\<close> does.\<close>

lemma matchOrder_steps_alone:
  "matchOrder_steps 8 t AtScan st =
     (case matchOrder t st of
        Inl e \<Rightarrow> Inl e
      | Inr (st', out) \<Rightarrow> Inr (st', Returned, (case out of None \<Rightarrow> [] | Some m \<Rightarrow> [m])))"
  unfolding eight
proof -
  let ?ob = "st (hashTicker t)"
  show "matchOrder_steps (Suc (Suc (Suc (Suc (Suc (Suc (Suc (Suc 0)))))))) t AtScan st =
     (case matchOrder t st of
        Inl e \<Rightarrow> Inl e
      | Inr (st', out) \<Rightarrow> Inr (st', Returned, (case out of None \<Rightarrow> [] | Some m \<Rightarrow> [m])))"
  proof (cases "scanBuy (buyOrders ?ob) (buyCount ?ob) 0 (0, -1)")
    case (Inl e)
    then show ?thesis by (simp add: matchOrder_def Let_def)
  next
    case b: (Inr rb)
    obtain bp bi where rb: "rb = (bp, bi)" by (cases rb)
    show ?thesis
    proof (cases "scanSell (sellOrders ?ob) (sellCount ?ob) 0 (1000000, -1)")
      case (Inl e)
      with b rb show ?thesis by (simp add: matchOrder_def Let_def)
    next
      case s: (Inr rs)
      obtain sp si where rs: "rs = (sp, si)" by (cases rs)
      show ?thesis
      proof (cases "bi \<noteq> -1 \<and> si \<noteq> -1 \<and> sp \<le>s bp")
        case False
        with b rb s rs show ?thesis
          by (auto simp add: matchOrder_def Let_def)
      next
        case True
        with b rb s rs show ?thesis
          by (simp add: matchOrder_def matchOrder_fill_def Let_def)
      qed
    qed
  qed
qed

lemma race_end_facts:
  "sint (matchedQuantity full_fill_line) = 100"
  "sint (quantity (buyOrders (race_end (hashTicker ''AAPL'')) 0)) = - 100"
  "active (buyOrders (race_end (hashTicker ''AAPL'')) 0)"
  "sint (quantity (sellOrders (race_end (hashTicker ''AAPL'')) 0)) = - 100"
  "active (sellOrders (race_end (hashTicker ''AAPL'')) 0)"
  by (simp_all add: full_fill_line_def race_end_def)

text \<open>
  C10. With a buy of 100 at 50 and a sell of 100 at 50 in the book, two threads call
  \<open>matchOrder\<close> and their steps alternate. Both threads load the quantity 100 before
  either subtracts, so each subtracts 100 from both orders and each reports a match of
  100: two matches are reported, 200 in total, both remaining quantities end at -100,
  and both orders stay active, the test for zero failing. When the second thread starts
  after the first has returned, one match of 100 is reported and both orders end not
  active.
\<close>

theorem two_threads_report_two_matches:
  "exec [AddOrder ''Buy'' ''AAPL'' 100 50, AddOrder ''Sell'' ''AAPL'' 100 50] orderBooks0
     = Inr (race_start, [])
   \<and> two_threads alternating ''AAPL'' (AtScan, AtScan) race_start
       = Inr (race_end, (Returned, Returned), [full_fill_line, full_fill_line])
   \<and> sint (matchedQuantity full_fill_line) = 100
   \<and> sint (quantity (buyOrders (race_end (hashTicker ''AAPL'')) 0)) = - 100
   \<and> active (buyOrders (race_end (hashTicker ''AAPL'')) 0)
   \<and> sint (quantity (sellOrders (race_end (hashTicker ''AAPL'')) 0)) = - 100
   \<and> active (sellOrders (race_end (hashTicker ''AAPL'')) 0)
   \<and> two_threads (replicate 8 True @ replicate 8 False) ''AAPL'' (AtScan, AtScan) race_start
       = Inr (full_fill_books, (Returned, Returned), [full_fill_line])"
  using exec_race_start two_threads_race race_end_facts two_threads_in_turn
  by (intro conjI)

end
